theory Spec2Isabelle
  imports Complex_Main "HOL-Library.Multiset" "HOL-Library.AList" "HOL-Library.Log_Nat"
begin

section \<open>Comment records\<close>

text \<open>
  A comment is a JavaScript object. The engine builds the joined-word fields itself
  (\<open>postId\<close>, \<open>authorId\<close>, ...); records read from storage may carry the
  underscore-separated fields instead (\<open>post_id\<close>, \<open>author_id\<close>, ...). A field that is
  absent, \<open>undefined\<close> or \<open>null\<close> is \<open>None\<close>. Identifiers are strings, numbers
  are integers, a creation time is the millisecond value of its Date object.

  \<open>draft\<close> is the object the engine hands to \<open>saveComment\<close> (no identifier yet);
  \<open>comment\<close> extends it with the identifier and the fields only storage supplies.
\<close>

record draft =
  postId :: "string option"
  authorId :: "string option"
  content :: string
  parentId :: "string option"
  depth :: "int option"
  score :: "int option"
  upvotes :: "int option"
  downvotes :: "int option"
  createdAt :: "int option"

record comment = draft +
  id' :: string
  post_id :: "string option"
  author_id :: "string option"
  parent_id :: "string option"
  created_at :: "int option"
  isDeleted :: "bool option"

text \<open>JavaScript truthiness of an optional string: absent and the empty string are falsy.\<close>

definition truthy :: "string option \<Rightarrow> bool" where
  "truthy v = (case v of None \<Rightarrow> False | Some s \<Rightarrow> s \<noteq> [])"

text \<open>\<open>a || b\<close> on optional strings.\<close>

definition js_or :: "string option \<Rightarrow> string option \<Rightarrow> string option" where
  "js_or a b = (if truthy a then a else b)"

section \<open>Tree module (utils.js)\<close>

subsection \<open>buildTree\<close>

text \<open>
  \<open>buildTree\<close> works on mutable node objects held in a \<open>Map\<close> from identifier to
  node. A node object is reached only through that map, so a reference to a node is the
  key it is stored under; the \<open>replies\<close> array of a node and the array of roots hold
  such references.
\<close>

record node =
  comment_fields :: comment
  replies :: "string list"

type_synonym commentMap = "string \<rightharpoonup> node"

text \<open>First pass: \<open>commentMap.set(comment.id, {...comment, replies: []})\<close>.\<close>

definition firstPass :: "comment list \<Rightarrow> commentMap" where
  "firstPass comments =
     fold (\<lambda>c m. m(id' c \<mapsto> \<lparr>comment_fields = c, replies = []\<rparr>)) comments Map.empty"

record forest =
  rootComments :: "string list"
  nodes :: commentMap

text \<open>The parent identifier read by the second pass: \<open>comment.parentId || comment.parent_id\<close>.\<close>

definition parentRef :: "comment \<Rightarrow> string option" where
  "parentRef c = js_or (parentId c) (parent_id c)"

text \<open>
  One iteration of the second pass: the node is pushed to the parent's \<open>replies\<close>
  when the parent identifier is truthy and a key of the map, and to \<open>rootComments\<close>
  otherwise.
\<close>

definition link :: "comment \<Rightarrow> forest \<Rightarrow> forest" where
  "link c st =
     (case parentRef c of
        None \<Rightarrow> st\<lparr>rootComments := rootComments st @ [id' c]\<rparr>
      | Some p \<Rightarrow>
          (if p = [] then st\<lparr>rootComments := rootComments st @ [id' c]\<rparr>
           else (case nodes st p of
                   None \<Rightarrow> st\<lparr>rootComments := rootComments st @ [id' c]\<rparr>
                 | Some n \<Rightarrow> st\<lparr>nodes := (nodes st)(p \<mapsto> n\<lparr>replies := replies n @ [id' c]\<rparr>)\<rparr>)))"

definition buildGraph :: "comment list \<Rightarrow> forest" where
  "buildGraph comments =
     fold link comments \<lparr>rootComments = [], nodes = firstPass comments\<rparr>"

text \<open>
  The value a caller receives is the array of root nodes with their nested \<open>replies\<close>
  arrays. \<open>tree\<close> is that nested value; \<open>nested\<close> reads it off the node map by
  following references, at most \<open>fuel\<close> levels deep.
\<close>

datatype tree = Node comment "tree list"

fun nested :: "nat \<Rightarrow> commentMap \<Rightarrow> string list \<Rightarrow> tree list option" where
  "nested fuel m [] = Some []"
| "nested 0 m (r # rs) = None"
| "nested (Suc fuel) m (r # rs) =
     (case m r of
        None \<Rightarrow> None
      | Some n \<Rightarrow>
          (case nested fuel m (replies n) of
             None \<Rightarrow> None
           | Some kids \<Rightarrow>
               (case nested (Suc fuel) m rs of
                  None \<Rightarrow> None
                | Some rest \<Rightarrow> Some (Node (comment_fields n) kids # rest))))"

text \<open>
  The map has at most \<open>length comments\<close> nodes, so a chain of replies that is longer
  passes through some node twice. Reading \<open>length comments\<close> levels deep therefore
  reads the whole result unless a node is reachable from itself; then the JavaScript
  result is a cyclic object graph, on which \<open>countComments\<close> and \<open>flattenTree\<close>
  exhaust the call stack, and the reading is \<open>None\<close>.
\<close>

definition buildTree :: "comment list \<Rightarrow> tree list option" where
  "buildTree comments =
     (let g = buildGraph comments
      in nested (length comments) (nodes g) (rootComments g))"

subsection \<open>countComments and flattenTree\<close>

text \<open>
  Both walk the forest with a local \<open>traverse\<close> that updates a variable of the
  enclosing function (\<open>count\<close>, \<open>result\<close>); the variable is threaded through here.
\<close>

fun traverse_count :: "tree list \<Rightarrow> nat \<Rightarrow> nat" where
  "traverse_count [] count' = count'"
| "traverse_count (Node c rs # ns) count' =
     traverse_count ns (if rs \<noteq> [] then traverse_count rs (count' + 1) else count' + 1)"

definition countComments :: "tree list \<Rightarrow> nat" where
  "countComments tree = traverse_count tree 0"

fun traverse_flat :: "tree list \<Rightarrow> comment list \<Rightarrow> comment list" where
  "traverse_flat [] result = result"
| "traverse_flat (Node c rs # ns) result =
     traverse_flat ns (if rs \<noteq> [] then traverse_flat rs (result @ [c]) else result @ [c])"

definition flattenTree :: "tree list \<Rightarrow> comment list" where
  "flattenTree tree = traverse_flat tree []"

section \<open>Ranking module (utils.js)\<close>

subsection \<open>Numbers\<close>

text \<open>
  JavaScript numbers are IEEE 754 doubles. A finite double is a rational number, and an
  arithmetic operation returns the exact result rounded to the nearest double, ties to
  the even significand. \<open>fl\<close> is that rounding for values in the normal range
  (no overflow, no subnormals), which is where vote counts and their quotients lie.
  Vote counts, scores and times are integers (below \<open>2^53\<close> in size, so that they are
  doubles).
\<close>

definition round_ties_even :: "rat \<Rightarrow> int" where
  "round_ties_even x =
     (let f = \<lfloor>x\<rfloor>; r = x - of_int f
      in if r < 1 / 2 then f else if 1 / 2 < r then f + 1 else if even f then f else f + 1)"

text \<open>The binary exponent of a positive rational: the \<open>e\<close> with \<open>2^e \<le> x < 2^(e+1)\<close>.\<close>

definition exponent :: "rat \<Rightarrow> int" where
  "exponent x =
     (let e = bitlen (fst (quotient_of x)) - bitlen (snd (quotient_of x))
      in if 2 powi e \<le> x then e else e - 1)"

definition fl :: "rat \<Rightarrow> rat" where
  "fl x =
     (if x = 0 then 0
      else let ulp = 2 powi (exponent \<bar>x\<bar> - 52)
           in of_int (round_ties_even (x / ulp)) * ulp)"

subsection \<open>calculateControversy\<close>

definition calculateControversy :: "comment \<Rightarrow> rat" where
  "calculateControversy c =
     (let upvotes' = (case upvotes c of None \<Rightarrow> 0 | Some u \<Rightarrow> of_int u);
          downvotes' = (case downvotes c of None \<Rightarrow> 0 | Some d \<Rightarrow> of_int d);
          total = fl (upvotes' + downvotes')
      in if total = 0 then 0
         else let balance = fl (1 - fl (\<bar>fl (upvotes' - downvotes')\<bar> / total))
              in fl (total * balance))"

subsection \<open>sortComments\<close>

text \<open>
  \<open>new Date(a.createdAt || a.created_at).getTime()\<close>: a Date object is truthy, so
  \<open>created_at\<close> is read only when \<open>createdAt\<close> is absent; with both absent the
  time is \<open>NaN\<close>, which is \<open>None\<close>.
\<close>

definition getTime :: "comment \<Rightarrow> int option" where
  "getTime c = (case createdAt c of Some t \<Rightarrow> Some t | None \<Rightarrow> created_at c)"

text \<open>A comparator returns a number; \<open>None\<close> is \<open>NaN\<close>.\<close>

definition minus_time :: "int option \<Rightarrow> int option \<Rightarrow> rat option" where
  "minus_time x y =
     (case x of None \<Rightarrow> None
      | Some a \<Rightarrow> (case y of None \<Rightarrow> None | Some b \<Rightarrow> Some (of_int (a - b))))"

definition compare_new :: "comment \<Rightarrow> comment \<Rightarrow> rat option" where
  "compare_new a b = (let aTime = getTime a; bTime = getTime b in minus_time bTime aTime)"

definition compare_old :: "comment \<Rightarrow> comment \<Rightarrow> rat option" where
  "compare_old a b = (let aTime = getTime a; bTime = getTime b in minus_time aTime bTime)"

definition compare_controversial :: "comment \<Rightarrow> comment \<Rightarrow> rat option" where
  "compare_controversial a b =
     (let aScore = calculateControversy a; bScore = calculateControversy b
      in Some (fl (bScore - aScore)))"

definition compare_top :: "comment \<Rightarrow> comment \<Rightarrow> rat option" where
  "compare_top a b =
     (let aScore = (case score a of None \<Rightarrow> 0 | Some x \<Rightarrow> x);
          bScore = (case score b of None \<Rightarrow> 0 | Some x \<Rightarrow> x)
      in if bScore \<noteq> aScore then Some (of_int (bScore - aScore))
         else let aTime = getTime a; bTime = getTime b in minus_time bTime aTime)"

text \<open>
  \<open>Array.prototype.sort\<close> is a stable sort: \<open>b\<close> is moved in front of an earlier
  \<open>a\<close> only when the comparator returns a positive number for \<open>(a, b)\<close>; zero and
  \<open>NaN\<close> keep the input order. Every stable sort gives the same result when the
  comparator is consistent; insertion sort stands for it here.
\<close>

definition positive :: "rat option \<Rightarrow> bool" where
  "positive v = (case v of None \<Rightarrow> False | Some x \<Rightarrow> 0 < x)"

fun insert_sorted :: "('a \<Rightarrow> 'a \<Rightarrow> rat option) \<Rightarrow> 'a \<Rightarrow> 'a list \<Rightarrow> 'a list" where
  "insert_sorted cmp x [] = [x]"
| "insert_sorted cmp x (y # ys) =
     (if positive (cmp x y) then y # insert_sorted cmp x ys else x # y # ys)"

fun array_sort :: "('a \<Rightarrow> 'a \<Rightarrow> rat option) \<Rightarrow> 'a list \<Rightarrow> 'a list" where
  "array_sort cmp [] = []"
| "array_sort cmp (x # xs) = insert_sorted cmp x (array_sort cmp xs)"

text \<open>The \<open>sort\<close> argument is a string; a caller that omits it gets \<open>'top'\<close>.\<close>

definition sortComments :: "comment list \<Rightarrow> string \<Rightarrow> comment list" where
  "sortComments comments sort' =
     (let sorted' = comments
      in if sort' = ''new'' then array_sort compare_new sorted'
         else if sort' = ''old'' then array_sort compare_old sorted'
         else if sort' = ''controversial'' then array_sort compare_controversial sorted'
         else array_sort compare_top sorted')"

section \<open>Errors (CommentError.js)\<close>

text \<open>
  A \<open>CommentError\<close> carries a message and a \<open>code\<close> property. A plain
  \<open>Error\<close> carries a message only. \<open>TypeError\<close> is what the runtime throws
  when a method that an object does not have is called.
\<close>

datatype error =
    CommentError string string
  | Error string
  | TypeError string

fun message :: "error \<Rightarrow> string" where
  "message (CommentError m c) = m"
| "message (Error m) = m"
| "message (TypeError m) = m"

fun code :: "error \<Rightarrow> string option" where
  "code (CommentError m c) = Some c"
| "code (Error m) = None"
| "code (TypeError m) = None"

section \<open>Storage adapters\<close>

text \<open>
  An adapter is an object whose methods act on a store of type \<open>'s\<close>. A method the
  object does not have is \<open>None\<close>. Identifier arguments are passed as the engine
  received them (a string, or absent). \<open>getComment\<close> and \<open>getComments\<close> read the
  store and leave it as it is; the other methods return the store they leave behind.
  \<open>saveComment\<close> also gets the clock reading its \<open>new Date()\<close> would see. The
  optional \<open>getReplies\<close> and \<open>getCount\<close>, and the engine functions of the same
  names, are not part of this development.
\<close>

record 's adapter =
  getComment :: "('s \<Rightarrow> string option \<Rightarrow> comment option) option"
  getComments :: "('s \<Rightarrow> string option \<Rightarrow> string \<Rightarrow> nat \<Rightarrow> nat \<Rightarrow> comment list) option"
  saveComment :: "(int \<Rightarrow> 's \<Rightarrow> draft \<Rightarrow> comment \<times> 's) option"
  deleteComment :: "('s \<Rightarrow> string option \<Rightarrow> 's) option"
  updateScore :: "('s \<Rightarrow> string option \<Rightarrow> int \<Rightarrow> int \<times> 's) option"

subsection \<open>The in-memory adapter (memoryAdapter.js)\<close>

text \<open>
  The store is a \<open>Map\<close> from identifier to comment, kept in insertion order, and
  the counter behind \<open>generateId\<close>.
\<close>

record memory =
  comments :: "(string \<times> comment) list"
  idCounter :: nat

function digits :: "nat \<Rightarrow> string" where
  "digits n = (if n < 10 then [''0123456789'' ! n] else digits (n div 10) @ [''0123456789'' ! (n mod 10)])"
  by pat_completeness auto
termination
  by (relation "measure (\<lambda>n. n)") auto

declare digits.simps [simp del]

definition generateId :: "memory \<Rightarrow> string \<times> memory" where
  "generateId st =
     (let st' = st\<lparr>idCounter := idCounter st + 1\<rparr>
      in (''comment_'' @ digits (idCounter st'), st'))"

definition mem_getComment :: "memory \<Rightarrow> string option \<Rightarrow> comment option" where
  "mem_getComment st i = (case i of None \<Rightarrow> None | Some k \<Rightarrow> map_of (comments st) k)"

definition mem_getComments :: "memory \<Rightarrow> string option \<Rightarrow> string \<Rightarrow> nat \<Rightarrow> nat \<Rightarrow> comment list" where
  "mem_getComments st postId' sort' limit offset =
     (let postComments = filter (\<lambda>c. postId c = postId') (map snd (comments st));
          sorted' = sortComments postComments sort'
      in take limit (drop offset sorted'))"

definition mem_saveComment :: "int \<Rightarrow> memory \<Rightarrow> draft \<Rightarrow> comment \<times> memory" where
  "mem_saveComment now st d =
     (let (i, st') = generateId st;
          saved = \<lparr>postId = postId d, authorId = authorId d, content = content d,
                   parentId = parentId d, depth = depth d, score = score d,
                   upvotes = upvotes d, downvotes = downvotes d,
                   createdAt = (case createdAt d of None \<Rightarrow> Some now | Some t \<Rightarrow> Some t),
                   id' = i, post_id = None, author_id = None, parent_id = None,
                   created_at = None, isDeleted = None\<rparr>
      in (saved, st'\<lparr>comments := AList.update i saved (comments st')\<rparr>))"

definition mem_deleteComment :: "memory \<Rightarrow> string option \<Rightarrow> memory" where
  "mem_deleteComment st i =
     (case i of None \<Rightarrow> st
      | Some k \<Rightarrow>
          st\<lparr>comments :=
               AList.map_entry k (\<lambda>c. c\<lparr>content := ''[deleted]'', isDeleted := Some True\<rparr>)
                 (comments st)\<rparr>)"

definition mem_updateScore :: "memory \<Rightarrow> string option \<Rightarrow> int \<Rightarrow> int \<times> memory" where
  "mem_updateScore st i delta =
     (case i of None \<Rightarrow> (0, st)
      | Some k \<Rightarrow>
          (case map_of (comments st) k of
             None \<Rightarrow> (0, st)
           | Some c \<Rightarrow>
               (let new = (case score c of None \<Rightarrow> 0 | Some x \<Rightarrow> x) + delta
                in (new, st\<lparr>comments :=
                              AList.map_entry k (\<lambda>c. c\<lparr>score := Some new\<rparr>) (comments st)\<rparr>))))"

definition createMemoryAdapter :: "memory adapter \<times> memory" where
  "createMemoryAdapter =
     (\<lparr>getComment = Some mem_getComment, getComments = Some mem_getComments,
       saveComment = Some mem_saveComment, deleteComment = Some mem_deleteComment,
       updateScore = Some mem_updateScore\<rparr>,
      \<lparr>comments = [], idCounter = 0\<rparr>)"

section \<open>Comment engine (CommentSystem.js)\<close>

record options =
  maxDepth :: int
  maxLength :: int

definition DEFAULT_OPTIONS :: options where
  "DEFAULT_OPTIONS = \<lparr>maxDepth = 10, maxLength = 10000\<rparr>"

record 's CommentSystem =
  adapter :: "'s adapter"
  options :: options

text \<open>\<open>typeof adapter[method] === 'function'\<close> for the method names the engine asks about.\<close>

definition has_method :: "'s adapter \<Rightarrow> string \<Rightarrow> bool" where
  "has_method a method =
     (if method = ''getComment'' then getComment a \<noteq> None
      else if method = ''getComments'' then getComments a \<noteq> None
      else if method = ''saveComment'' then saveComment a \<noteq> None
      else if method = ''deleteComment'' then deleteComment a \<noteq> None
      else if method = ''updateScore'' then updateScore a \<noteq> None
      else False)"

fun check_methods :: "'s adapter \<Rightarrow> string list \<Rightarrow> error + unit" where
  "check_methods a [] = Inr ()"
| "check_methods a (method # rest) =
     (if \<not> has_method a method
      then Inl (Error (''Adapter must implement '' @ method @ ''() method''))
      else check_methods a rest)"

definition CommentSystem_validateAdapter :: "'s adapter \<Rightarrow> error + unit" where
  "CommentSystem_validateAdapter a =
     check_methods a [''getComment'', ''getComments'', ''saveComment'', ''deleteComment'']"

text \<open>
  The constructor. The \<open>options\<close> argument lists the settings the caller overrides;
  the others keep their defaults.
\<close>

definition CommentSystem_new :: "'s adapter \<Rightarrow> int option \<Rightarrow> int option \<Rightarrow> error + 's CommentSystem" where
  "CommentSystem_new a maxDepth' maxLength' =
     (case CommentSystem_validateAdapter a of
        Inl e \<Rightarrow> Inl e
      | Inr _ \<Rightarrow>
          Inr \<lparr>adapter = a,
               options = \<lparr>maxDepth = (case maxDepth' of None \<Rightarrow> maxDepth DEFAULT_OPTIONS | Some d \<Rightarrow> d),
                          maxLength = (case maxLength' of None \<Rightarrow> maxLength DEFAULT_OPTIONS | Some l \<Rightarrow> l)\<rparr>\<rparr>)"

subsection \<open>Content validation\<close>

text \<open>The \<open>content\<close> argument is any JavaScript value.\<close>

datatype jsval = VUndefined | VNull | VBool bool | VNum int | VStr string

fun js_truthy :: "jsval \<Rightarrow> bool" where
  "js_truthy VUndefined = False"
| "js_truthy VNull = False"
| "js_truthy (VBool b) = b"
| "js_truthy (VNum n) = (n \<noteq> 0)"
| "js_truthy (VStr s) = (s \<noteq> [])"

fun typeof :: "jsval \<Rightarrow> string" where
  "typeof VUndefined = ''undefined''"
| "typeof VNull = ''object''"
| "typeof (VBool b) = ''boolean''"
| "typeof (VNum n) = ''number''"
| "typeof (VStr s) = ''string''"

text \<open>
  \<open>String.prototype.trim\<close> removes white space at both ends. Strings are byte
  strings here, so the white space is the ASCII white space.
\<close>

definition is_space :: "char \<Rightarrow> bool" where
  "is_space c = (c \<in> set [CHR 0x09, CHR 0x0A, CHR 0x0B, CHR 0x0C, CHR 0x0D, CHR 0x20])"

definition trim :: "string \<Rightarrow> string" where
  "trim s = rev (dropWhile is_space (rev (dropWhile is_space s)))"

definition show_int :: "int \<Rightarrow> string" where
  "show_int i = (if i < 0 then ''-'' @ digits (nat (- i)) else digits (nat i))"

definition CommentSystem_validateContent :: "options \<Rightarrow> jsval \<Rightarrow> error + string" where
  "CommentSystem_validateContent opts content' =
     (if \<not> js_truthy content' \<or> typeof content' \<noteq> ''string''
      then Inl (CommentError ''Content is required'' ''EMPTY_CONTENT'')
      else (case content' of
              VStr s \<Rightarrow>
                (let trimmed = trim s
                 in if length trimmed = 0
                    then Inl (CommentError ''Content cannot be empty'' ''EMPTY_CONTENT'')
                    else if int (length trimmed) > maxLength opts
                    then Inl (CommentError
                           (''Content exceeds maximum length of '' @ show_int (maxLength opts))
                           ''MAX_LENGTH'')
                    else Inr trimmed)
            | _ \<Rightarrow> Inl (CommentError ''Content is required'' ''EMPTY_CONTENT'')))"

subsection \<open>Operations\<close>

text \<open>
  An operation runs against the store and returns its outcome together with the store
  it leaves behind: \<open>Inl\<close> is the error thrown, \<open>Inr\<close> the value returned.
  \<open>now\<close> is the clock reading of \<open>new Date()\<close>.
\<close>

definition CommentSystem_create ::
  "'s CommentSystem \<Rightarrow> string option \<Rightarrow> string option \<Rightarrow> jsval \<Rightarrow> int \<Rightarrow> 's \<Rightarrow> (error + comment) \<times> 's" where
  "CommentSystem_create sys postId' authorId' content' now st =
     (if \<not> truthy postId' then (Inl (CommentError ''Post ID is required'' ''MISSING_POST''), st)
      else if \<not> truthy authorId' then (Inl (CommentError ''Author ID is required'' ''MISSING_AUTHOR''), st)
      else (case CommentSystem_validateContent (options sys) content' of
              Inl e \<Rightarrow> (Inl e, st)
            | Inr validatedContent \<Rightarrow>
                (case saveComment (adapter sys) of
                   None \<Rightarrow> (Inl (TypeError ''this.adapter.saveComment is not a function''), st)
                 | Some save \<Rightarrow>
                     (let (saved, st') =
                            save now st
                              \<lparr>postId = postId', authorId = authorId', content = validatedContent,
                               parentId = None, depth = Some 0, score = Some 0, upvotes = Some 0,
                               downvotes = Some 0, createdAt = Some now\<rparr>
                      in (Inr saved, st')))))"

definition CommentSystem_reply ::
  "'s CommentSystem \<Rightarrow> string option \<Rightarrow> string option \<Rightarrow> string option \<Rightarrow> jsval \<Rightarrow> int \<Rightarrow> 's
     \<Rightarrow> (error + comment) \<times> 's" where
  "CommentSystem_reply sys postId' parentId' authorId' content' now st =
     (if \<not> truthy postId' then (Inl (CommentError ''Post ID is required'' ''MISSING_POST''), st)
      else if \<not> truthy parentId'
      then (Inl (CommentError ''Parent ID is required for replies'' ''MISSING_PARENT''), st)
      else if \<not> truthy authorId' then (Inl (CommentError ''Author ID is required'' ''MISSING_AUTHOR''), st)
      else (case getComment (adapter sys) of
              None \<Rightarrow> (Inl (TypeError ''this.adapter.getComment is not a function''), st)
            | Some get \<Rightarrow>
                (case get st parentId' of
                   None \<Rightarrow> (Inl (CommentError ''Parent comment not found'' ''PARENT_NOT_FOUND''), st)
                 | Some parent \<Rightarrow>
                     (if postId parent \<noteq> postId' \<and> post_id parent \<noteq> postId'
                      then (Inl (CommentError ''Parent comment belongs to different post''
                                   ''INVALID_PARENT''), st)
                      else let parentDepth = (case depth parent of None \<Rightarrow> 0 | Some d \<Rightarrow> d);
                               newDepth = parentDepth + 1
                           in if newDepth > maxDepth (options sys)
                              then (Inl (CommentError
                                           (''Maximum comment depth of '' @ show_int (maxDepth (options sys))
                                              @ '' exceeded'')
                                           ''MAX_DEPTH''), st)
                              else (case CommentSystem_validateContent (options sys) content' of
                                      Inl e \<Rightarrow> (Inl e, st)
                                    | Inr validatedContent \<Rightarrow>
                                        (case saveComment (adapter sys) of
                                           None \<Rightarrow>
                                             (Inl (TypeError ''this.adapter.saveComment is not a function''), st)
                                         | Some save \<Rightarrow>
                                             (let (saved, st') =
                                                    save now st
                                                      \<lparr>postId = postId', authorId = authorId',
                                                       content = validatedContent, parentId = parentId',
                                                       depth = Some newDepth, score = Some 0,
                                                       upvotes = Some 0, downvotes = Some 0,
                                                       createdAt = Some now\<rparr>
                                              in (Inr saved, st'))))))))"

definition CommentSystem_getThread ::
  "'s CommentSystem \<Rightarrow> string option \<Rightarrow> string \<Rightarrow> nat \<Rightarrow> nat \<Rightarrow> 's \<Rightarrow> (error + tree list option) \<times> 's" where
  "CommentSystem_getThread sys postId' sort' limit offset st =
     (case getComments (adapter sys) of
        None \<Rightarrow> (Inl (TypeError ''this.adapter.getComments is not a function''), st)
      | Some query \<Rightarrow>
          (let found = query st postId' sort' limit offset;
               sorted' = sortComments found sort'
           in (Inr (buildTree sorted'), st)))"

definition CommentSystem_getComment ::
  "'s CommentSystem \<Rightarrow> string option \<Rightarrow> 's \<Rightarrow> (error + comment) \<times> 's" where
  "CommentSystem_getComment sys i st =
     (case getComment (adapter sys) of
        None \<Rightarrow> (Inl (TypeError ''this.adapter.getComment is not a function''), st)
      | Some get \<Rightarrow>
          (case get st i of
             None \<Rightarrow> (Inl (CommentError ''Comment not found'' ''NOT_FOUND''), st)
           | Some c \<Rightarrow> (Inr c, st)))"

definition CommentSystem_delete ::
  "'s CommentSystem \<Rightarrow> string option \<Rightarrow> string option \<Rightarrow> 's \<Rightarrow> (error + unit) \<times> 's" where
  "CommentSystem_delete sys commentId agentId st =
     (case getComment (adapter sys) of
        None \<Rightarrow> (Inl (TypeError ''this.adapter.getComment is not a function''), st)
      | Some get \<Rightarrow>
          (case get st commentId of
             None \<Rightarrow> (Inl (CommentError ''Comment not found'' ''NOT_FOUND''), st)
           | Some c \<Rightarrow>
               (let authorId' = js_or (authorId c) (author_id c)
                in if authorId' \<noteq> agentId
                   then (Inl (CommentError ''Cannot delete another agent's comment'' ''FORBIDDEN''), st)
                   else (case deleteComment (adapter sys) of
                           None \<Rightarrow>
                             (Inl (TypeError ''this.adapter.deleteComment is not a function''), st)
                         | Some del \<Rightarrow> (Inr (), del st commentId)))))"

definition CommentSystem_updateScore ::
  "'s CommentSystem \<Rightarrow> string option \<Rightarrow> int \<Rightarrow> 's \<Rightarrow> (error + int) \<times> 's" where
  "CommentSystem_updateScore sys commentId delta st =
     (if \<not> has_method (adapter sys) ''updateScore''
      then (Inl (Error ''Adapter does not support updateScore''), st)
      else (case updateScore (adapter sys) of
              None \<Rightarrow> (Inl (TypeError ''this.adapter.updateScore is not a function''), st)
            | Some upd \<Rightarrow> (let (new, st') = upd st commentId delta in (Inr new, st'))))"

section \<open>Vocabulary of the properties\<close>

subsection \<open>Roots, replies and levels of a collection\<close>

text \<open>
  A comment is a root of the collection when its parent identifier is absent or empty,
  or is not the identifier of a comment of the collection; it is a reply to \<open>p\<close>
  when its parent identifier is the non-empty \<open>p\<close>.
\<close>

definition isRootIn :: "comment list \<Rightarrow> comment \<Rightarrow> bool" where
  "isRootIn C c = (case parentRef c of None \<Rightarrow> True | Some p \<Rightarrow> p = [] \<or> p \<notin> id' ` set C)"

definition isReplyTo :: "string \<Rightarrow> comment \<Rightarrow> bool" where
  "isReplyTo p c = (parentRef c = Some p \<and> p \<noteq> [])"

text \<open>
  The parent links of a collection are acyclic exactly when its comments can be given
  levels: a root has level 0 and any other comment is one level below its parent.
\<close>

definition levelled :: "(string \<Rightarrow> nat) \<Rightarrow> comment list \<Rightarrow> bool" where
  "levelled lvl C =
     (\<forall>c\<in>set C. if isRootIn C c then lvl (id' c) = 0
                else (\<exists>p. parentRef c = Some p \<and> lvl (id' c) = Suc (lvl p)))"

subsection \<open>Nodes of a forest\<close>

fun label :: "tree \<Rightarrow> comment" where
  "label (Node c rs) = c"

fun children :: "tree \<Rightarrow> tree list" where
  "children (Node c rs) = rs"

text \<open>Every node of a forest, at any depth.\<close>

fun allNodes :: "tree list \<Rightarrow> tree list" where
  "allNodes [] = []"
| "allNodes (Node c rs # ns) = Node c rs # allNodes rs @ allNodes ns"

text \<open>
  Pre-order as the specification words it: visit a node, emit it without its children,
  then its children in order, then the nodes after it.
\<close>

fun preorder :: "tree list \<Rightarrow> comment list" where
  "preorder [] = []"
| "preorder (Node c rs # ns) = c # preorder rs @ preorder ns"

subsection \<open>Generations of the node map\<close>

text \<open>
  The nodes reached from a list of references, generation by generation: the list
  itself, then the replies of its nodes, and so on.
\<close>

definition kidsOf :: "commentMap \<Rightarrow> string \<Rightarrow> string list" where
  "kidsOf m i = (case m i of None \<Rightarrow> [] | Some n \<Rightarrow> replies n)"

definition nextGen :: "commentMap \<Rightarrow> string list \<Rightarrow> string list" where
  "nextGen m is = concat (map (kidsOf m) is)"

fun levels :: "nat \<Rightarrow> commentMap \<Rightarrow> string list \<Rightarrow> string multiset" where
  "levels 0 m is = {#}"
| "levels (Suc f) m is = mset is + levels f m (nextGen m is)"

fun exhausted :: "nat \<Rightarrow> commentMap \<Rightarrow> string list \<Rightarrow> bool" where
  "exhausted 0 m is = (is = [])"
| "exhausted (Suc f) m is = exhausted f m (nextGen m is)"

definition closed :: "commentMap \<Rightarrow> bool" where
  "closed m = (\<forall>i n. m i = Some n \<longrightarrow> set (replies n) \<subseteq> dom m)"

definition cm :: "commentMap \<Rightarrow> string \<Rightarrow> comment" where
  "cm m i = comment_fields (the (m i))"

definition attaches :: "string set \<Rightarrow> comment \<Rightarrow> bool" where
  "attaches D c = (case parentRef c of None \<Rightarrow> False | Some p \<Rightarrow> p \<noteq> [] \<and> p \<in> D)"

definition reads :: "commentMap \<Rightarrow> string \<Rightarrow> tree \<Rightarrow> bool" where
  "reads m i nd = (\<exists>n. m i = Some n \<and> label nd = comment_fields n)"

subsection \<open>Example collections\<close>

definition mkComment :: "string \<Rightarrow> string option \<Rightarrow> comment" where
  "mkComment i p =
     \<lparr>postId = Some ''post_1'', authorId = Some ''agent_1'', content = ''text'', parentId = p,
      depth = None, score = None, upvotes = None, downvotes = None, createdAt = None, id' = i,
      post_id = None, author_id = None, parent_id = None, created_at = None, isDeleted = None\<rparr>"

text \<open>The collection of the test \<open>buildTree creates nested structure\<close>.\<close>

definition exampleThread :: "comment list" where
  "exampleThread = [mkComment ''1'' None, mkComment ''2'' (Some ''1''), mkComment ''3'' None]"

definition exampleLevel :: "string \<Rightarrow> nat" where
  "exampleLevel i = (if i = ''2'' then 1 else 0)"

text \<open>A comment that names itself as its parent.\<close>

definition selfReply :: "comment list" where
  "selfReply = [mkComment ''1'' (Some ''1'')]"

text \<open>Two comments with the same identifier, and a reply to it.\<close>

definition duplicateIds :: "comment list" where
  "duplicateIds = [mkComment ''1'' None, mkComment ''1'' None, mkComment ''2'' (Some ''1'')]"

text \<open>A comment whose identifier is the empty string, and a comment naming it as parent.\<close>

definition emptyParent :: "comment list" where
  "emptyParent = [mkComment [] None, mkComment ''a'' (Some [])]"

text \<open>Two replies to one parent, with another root between them.\<close>

definition siblings :: "comment list" where
  "siblings = [mkComment ''2'' (Some ''1''), mkComment ''1'' None, mkComment ''4'' None,
               mkComment ''3'' (Some ''1'')]"

subsection \<open>Example forest\<close>

definition exampleForest :: "tree list" where
  "exampleForest =
     [Node (mkComment ''1'' None) [Node (mkComment ''2'' (Some ''1'')) []],
      Node (mkComment ''3'' None) []]"

subsection \<open>The order of the top policy\<close>






section \<open>Vocabulary of the engine properties\<close>

text \<open>The object that \<open>reply\<close> hands to \<open>saveComment\<close>, and the depth it reads from the parent.\<close>

definition replyDraft :: "string option \<Rightarrow> string option \<Rightarrow> string option \<Rightarrow> string \<Rightarrow> int \<Rightarrow> int \<Rightarrow> draft" where
  "replyDraft postId' parentId' authorId' validatedContent newDepth now =
     \<lparr>postId = postId', authorId = authorId', content = validatedContent, parentId = parentId',
      depth = Some newDepth, score = Some 0, upvotes = Some 0, downvotes = Some 0,
      createdAt = Some now\<rparr>"

definition parentDepth :: "comment \<Rightarrow> int" where
  "parentDepth parent = (case depth parent of None \<Rightarrow> 0 | Some d \<Rightarrow> d)"

text \<open>An engine over the in-memory adapter.\<close>

definition memorySystem :: "options \<Rightarrow> memory CommentSystem" where
  "memorySystem opts = \<lparr>adapter = fst createMemoryAdapter, options = opts\<rparr>"

text \<open>
  A chain of replies as in the test \<open>rejects reply exceeding max depth\<close>: a root
  comment, then \<open>n\<close> replies, each to the comment created before it.
\<close>

fun replyChain ::
  "memory CommentSystem \<Rightarrow> string \<Rightarrow> string \<Rightarrow> string \<Rightarrow> int \<Rightarrow> nat \<Rightarrow> memory \<Rightarrow> (error + comment) \<times> memory" where
  "replyChain sys post author body now 0 st =
     CommentSystem_create sys (Some post) (Some author) (VStr body) now st"
| "replyChain sys post author body now (Suc n) st =
     (case replyChain sys post author body now n st of
        (Inl e, st') \<Rightarrow> (Inl e, st')
      | (Inr parent, st') \<Rightarrow>
          CommentSystem_reply sys (Some post) (Some (id' parent)) (Some author) (VStr body) now st')"

definition chain_ok :: "string \<Rightarrow> nat \<Rightarrow> (error + comment) \<times> memory \<Rightarrow> bool" where
  "chain_ok post n r =
     (case r of
        (Inl e, st') \<Rightarrow> False
      | (Inr c, st') \<Rightarrow>
          depth c = Some (int n) \<and> mem_getComment st' (Some (id' c)) = Some c
          \<and> postId c = Some post \<and> id' c \<noteq> [])"

subsection \<open>Example stores\<close>

definition storedRoot :: comment where
  "storedRoot = (mkComment ''comment_1'' None)\<lparr>depth := Some 0\<rparr>"

definition exampleStore :: memory where
  "exampleStore = \<lparr>comments = [(''comment_1'', storedRoot)], idCounter = 1\<rparr>"

definition legacyStore :: memory where
  "legacyStore = \<lparr>comments = [(''legacy_1'', mkComment ''legacy_1'' None)], idCounter = 0\<rparr>"

definition testOptions :: options where
  "testOptions = \<lparr>maxDepth = 2, maxLength = 10000\<rparr>"

subsection \<open>Soft deletion, empty content, error codes\<close>



text \<open>
  The codes of the engine's \<open>CommentError\<close>s. An error is coded when it carries one of
  them and the code is not its message.
\<close>

definition engine_codes :: "string list" where
  "engine_codes =
     [''MISSING_POST'', ''MISSING_AUTHOR'', ''MISSING_PARENT'', ''EMPTY_CONTENT'', ''MAX_LENGTH'',
      ''PARENT_NOT_FOUND'', ''INVALID_PARENT'', ''MAX_DEPTH'', ''NOT_FOUND'', ''FORBIDDEN'']"

definition coded :: "error \<Rightarrow> bool" where
  "coded e = (case code e of None \<Rightarrow> False | Some c \<Rightarrow> c \<in> set engine_codes \<and> c \<noteq> message e)"

text \<open>
  The adapter of the test \<open>throws on invalid adapter\<close> (an object without methods), and
  the in-memory adapter without its optional \<open>updateScore\<close>.
\<close>

definition bareAdapter :: "unit adapter" where
  "bareAdapter = \<lparr>getComment = None, getComments = None, saveComment = None,
                   deleteComment = None, updateScore = None\<rparr>"

definition scorelessAdapter :: "memory adapter" where
  "scorelessAdapter = (fst createMemoryAdapter)\<lparr>updateScore := None\<rparr>"

subsection \<open>The controversy formula in exact arithmetic\<close>

text \<open>
  The formula of the specification, over the rationals: with \<open>u\<close> upvotes, \<open>d\<close>
  downvotes (0 when absent) and \<open>t = u + d\<close>, the score is 0 when \<open>t = 0\<close> and
  \<open>t * (1 - |u - d| / t)\<close> otherwise.
\<close>

definition upvotesOf :: "comment \<Rightarrow> int" where
  "upvotesOf c = (case upvotes c of None \<Rightarrow> 0 | Some u \<Rightarrow> u)"

definition downvotesOf :: "comment \<Rightarrow> int" where
  "downvotesOf c = (case downvotes c of None \<Rightarrow> 0 | Some d \<Rightarrow> d)"

definition controversyScore :: "comment \<Rightarrow> rat" where
  "controversyScore c =
     (let u = of_int (upvotesOf c); d = of_int (downvotesOf c); t = u + d
      in if t = 0 then 0 else t * (1 - \<bar>u - d\<bar> / t))"

definition mkVotes :: "int \<Rightarrow> int \<Rightarrow> comment" where
  "mkVotes u d = (mkComment ''v'' None)\<lparr>upvotes := Some u, downvotes := Some d\<rparr>"

section \<open>Properties of the tree module\<close>

subsection \<open>The two passes of buildTree\<close>

lemma find_snoc:
  "find P (xs @ [x]) = (case find P xs of None \<Rightarrow> (if P x then Some x else None) | Some y \<Rightarrow> Some y)"
  by (induction xs) auto

lemma fold_set_node:
  "fold (\<lambda>c m. m(id' c \<mapsto> \<lparr>comment_fields = c, replies = []\<rparr>)) xs m0 i =
     (case find (\<lambda>c. id' c = i) (rev xs) of
        None \<Rightarrow> m0 i
      | Some c \<Rightarrow> Some \<lparr>comment_fields = c, replies = []\<rparr>)"
  by (induction xs arbitrary: m0) (auto simp: find_snoc split: option.splits)

lemma firstPass_find:
  "firstPass C i = map_option (\<lambda>c. \<lparr>comment_fields = c, replies = []\<rparr>) (find (\<lambda>c. id' c = i) (rev C))"
  by (simp add: firstPass_def fold_set_node split: option.splits)

lemma firstPass_None: "firstPass C i = None \<longleftrightarrow> i \<notin> id' ` set C"
  by (auto simp: firstPass_find find_None_iff)

lemma link_dom: "dom (nodes (link c st)) = dom (nodes st)"
  by (auto simp: link_def split: option.splits if_splits)

lemma link_roots:
  "rootComments (link c st) = rootComments st @ (if attaches (dom (nodes st)) c then [] else [id' c])"
  by (auto simp: link_def attaches_def split: option.splits)

lemma link_nodes:
  "nodes (link c st) p =
     map_option (\<lambda>n. n\<lparr>replies := replies n @ (if isReplyTo p c then [id' c] else [])\<rparr>) (nodes st p)"
  by (auto simp: link_def isReplyTo_def split: option.splits)

lemma fold_link_dom: "dom (nodes (fold link xs st)) = dom (nodes st)"
  by (induction xs arbitrary: st) (simp_all add: link_dom)

lemma fold_link_roots:
  "rootComments (fold link xs st) =
     rootComments st @ map id' (filter (\<lambda>c. \<not> attaches (dom (nodes st)) c) xs)"
  by (induction xs arbitrary: st) (simp_all add: link_dom link_roots)

lemma fold_link_nodes:
  "nodes (fold link xs st) p =
     map_option (\<lambda>n. n\<lparr>replies := replies n @ map id' (filter (isReplyTo p) xs)\<rparr>) (nodes st p)"
proof (induction xs arbitrary: st)
  case Nil
  show ?case by (cases "nodes st p") simp_all
next
  case (Cons x xs)
  show ?case by (cases "nodes st p") (simp_all add: Cons.IH link_nodes)
qed

lemma buildGraph_roots: "rootComments (buildGraph C) = map id' (filter (isRootIn C) C)"
proof -
  have "dom (firstPass C) = id' ` set C"
    using firstPass_None[of C] by (auto simp: dom_def)
  moreover have "\<And>c. attaches (id' ` set C) c = (\<not> isRootIn C c)"
    by (auto simp: attaches_def isRootIn_def split: option.splits)
  ultimately show ?thesis
    by (simp add: buildGraph_def fold_link_roots)
qed

lemma buildGraph_nodes:
  "nodes (buildGraph C) p =
     map_option (\<lambda>c. \<lparr>comment_fields = c, replies = map id' (filter (isReplyTo p) C)\<rparr>)
       (find (\<lambda>c. id' c = p) (rev C))"
  by (cases "find (\<lambda>c. id' c = p) (rev C)") (simp_all add: buildGraph_def fold_link_nodes firstPass_find)

lemma traverse_flat_preorder: "traverse_flat t acc = acc @ preorder t"
  by (induction t acc rule: traverse_flat.induct) auto

lemma flattenTree_preorder: "flattenTree t = preorder t"
  by (simp add: flattenTree_def traverse_flat_preorder)

lemma traverse_count_preorder: "traverse_count t n = n + length (preorder t)"
  by (induction t n rule: traverse_count.induct) auto

lemma countComments_preorder: "countComments t = length (preorder t)"
  by (simp add: countComments_def traverse_count_preorder)

lemma nextGen_append: "nextGen m (xs @ ys) = nextGen m xs @ nextGen m ys"
  by (simp add: nextGen_def)

lemma nextGen_Cons: "nextGen m (x # xs) = kidsOf m x @ nextGen m xs"
  by (simp add: nextGen_def)

lemma nextGen_Nil: "nextGen m [] = []"
  by (simp add: nextGen_def)

lemma levels_append: "levels f m (xs @ ys) = levels f m xs + levels f m ys"
  by (induction f arbitrary: xs ys) (simp_all add: nextGen_append)

lemma levels_Nil: "levels f m [] = {#}"
  by (induction f) (simp_all add: nextGen_Nil)

lemma exhausted_append: "exhausted f m (xs @ ys) \<longleftrightarrow> exhausted f m xs \<and> exhausted f m ys"
  by (induction f arbitrary: xs ys) (simp_all add: nextGen_append)

lemma exhausted_Nil: "exhausted f m []"
  by (induction f) (simp_all add: nextGen_Nil)

lemma nested_levels:
  "closed m \<Longrightarrow> set is \<subseteq> dom m \<Longrightarrow> exhausted f m is \<Longrightarrow>
     \<exists>t. nested f m is = Some t \<and> mset (preorder t) = image_mset (cm m) (levels f m is)"
proof (induction f m "is" rule: nested.induct)
  case (1 fuel m)
  then show ?case by (simp add: levels_Nil)
next
  case (2 m r rs)
  then show ?case by simp
next
  case (3 fuel m r rs)
  from "3.prems" obtain n where n: "m r = Some n" by auto
  with "3.prems" have sub: "set (replies n) \<subseteq> dom m" by (auto simp: closed_def)
  from "3.prems"(3) n have ex1: "exhausted fuel m (replies n)" and ex2: "exhausted (Suc fuel) m rs"
    by (simp_all add: nextGen_Cons exhausted_append kidsOf_def)
  from "3.IH"(1)[OF n "3.prems"(1) sub ex1] obtain kids where
    kids: "nested fuel m (replies n) = Some kids"
      "mset (preorder kids) = image_mset (cm m) (levels fuel m (replies n))" by blast
  from "3.prems"(2) have "set rs \<subseteq> dom m" by simp
  from "3.IH"(2)[OF n kids(1) "3.prems"(1) this ex2] obtain rest where
    rest: "nested (Suc fuel) m rs = Some rest"
      "mset (preorder rest) = image_mset (cm m) (levels (Suc fuel) m rs)" by blast
  have "cm m r = comment_fields n" using n by (simp add: cm_def)
  then show ?case
    using n kids rest
    by (simp add: nextGen_Cons levels_append kidsOf_def ac_simps)
qed

lemma mset_filter_disj:
  "(\<And>x. x \<in> set xs \<Longrightarrow> \<not> (P x \<and> Q x)) \<Longrightarrow>
     mset (filter P xs) + mset (filter Q xs) = mset (filter (\<lambda>x. P x \<or> Q x) xs)"
  by (induction xs) auto

lemma isReplyTo_inj: "isReplyTo p c \<Longrightarrow> isReplyTo q c \<Longrightarrow> p = q"
  by (simp add: isReplyTo_def)

lemma replies_of_distinct:
  "distinct (map id' A) \<Longrightarrow>
     (\<Sum>c\<leftarrow>A. mset (filter (isReplyTo (id' c)) D)) =
       mset (filter (\<lambda>d. \<exists>c\<in>set A. isReplyTo (id' c) d) D)"
proof (induction A)
  case Nil
  then show ?case by simp
next
  case (Cons a A)
  have disj: "\<And>d. \<not> (isReplyTo (id' a) d \<and> (\<exists>c\<in>set A. isReplyTo (id' c) d))"
    using Cons.prems by (auto dest: isReplyTo_inj)
  show ?case
    using Cons mset_filter_disj[of D "isReplyTo (id' a)" "\<lambda>d. \<exists>c\<in>set A. isReplyTo (id' c) d"] disj
    by simp
qed

lemma levelled_root: "levelled lvl C \<Longrightarrow> c \<in> set C \<Longrightarrow> isRootIn C c \<longleftrightarrow> lvl (id' c) = 0"
  by (fastforce simp: levelled_def split: if_splits)

lemma levelled_step:
  assumes "levelled lvl C" "d \<in> set C"
  shows "(\<exists>c\<in>set C. lvl (id' c) = k \<and> isReplyTo (id' c) d) \<longleftrightarrow> lvl (id' d) = Suc k"
proof
  assume "\<exists>c\<in>set C. lvl (id' c) = k \<and> isReplyTo (id' c) d"
  then obtain c where c: "c \<in> set C" "lvl (id' c) = k" "isReplyTo (id' c) d" by blast
  then have "\<not> isRootIn C d" by (auto simp: isRootIn_def isReplyTo_def)
  with assms c show "lvl (id' d) = Suc k"
    by (auto simp: levelled_def isReplyTo_def split: if_splits)
next
  assume l: "lvl (id' d) = Suc k"
  with assms have nr: "\<not> isRootIn C d" by (auto simp: levelled_root)
  with assms obtain p where p: "parentRef d = Some p" "lvl (id' d) = Suc (lvl p)"
    by (auto simp: levelled_def split: if_splits)
  from nr p have "p \<noteq> []" "p \<in> id' ` set C" by (auto simp: isRootIn_def)
  then obtain c where "c \<in> set C" "id' c = p" by auto
  with p l \<open>p \<noteq> []\<close> show "\<exists>c\<in>set C. lvl (id' c) = k \<and> isReplyTo (id' c) d"
    by (auto simp: isReplyTo_def)
qed

lemma kidsOf_buildGraph:
  "c \<in> set C \<Longrightarrow> kidsOf (nodes (buildGraph C)) (id' c) = map id' (filter (isReplyTo (id' c)) C)"
proof -
  assume "c \<in> set C"
  then have "find (\<lambda>x. id' x = id' c) (rev C) \<noteq> None"
    by (auto simp: find_None_iff)
  then show ?thesis
    by (auto simp: kidsOf_def buildGraph_nodes)
qed

lemma sum_list_image_mset:
  "(\<Sum>c\<leftarrow>A. image_mset f (g c)) = image_mset f (\<Sum>c\<leftarrow>A. g c)"
  by (induction A) simp_all

lemma mset_nextGen: "mset (nextGen m is) = (\<Sum>i\<in>#mset is. mset (kidsOf m i))"
  by (induction "is") (simp_all add: nextGen_Nil nextGen_Cons)

lemma nextGen_level:
  assumes lv: "levelled lvl C" and di: "distinct (map id' C)"
    and "is": "mset is = mset (map id' (filter (\<lambda>c. lvl (id' c) = k) C))"
  shows "mset (nextGen (nodes (buildGraph C)) is) = mset (map id' (filter (\<lambda>c. lvl (id' c) = Suc k) C))"
proof -
  let ?A = "filter (\<lambda>c. lvl (id' c) = k) C"
  let ?m = "nodes (buildGraph C)"
  have dA: "distinct (map id' ?A)" using di by (simp add: distinct_map_filter)
  have "mset (nextGen ?m is) = (\<Sum>i\<in>#mset (map id' ?A). mset (kidsOf ?m i))"
    by (simp add: mset_nextGen "is")
  also have "\<dots> = (\<Sum>c\<leftarrow>?A. mset (kidsOf ?m (id' c)))"
    by (simp add: sum_mset_sum_list[symmetric] image_mset.compositionality comp_def)
  also have "\<dots> = (\<Sum>c\<leftarrow>?A. image_mset id' (mset (filter (isReplyTo (id' c)) C)))"
    by (rule arg_cong[where f = sum_list], rule map_cong) (simp_all add: kidsOf_buildGraph)
  also have "\<dots> = image_mset id' (\<Sum>c\<leftarrow>?A. mset (filter (isReplyTo (id' c)) C))"
    by (simp only: sum_list_image_mset)
  also have "\<dots> = image_mset id' (mset (filter (\<lambda>d. \<exists>c\<in>set ?A. isReplyTo (id' c) d) C))"
    by (simp only: replies_of_distinct[OF dA])
  also have "filter (\<lambda>d. \<exists>c\<in>set ?A. isReplyTo (id' c) d) C = filter (\<lambda>c. lvl (id' c) = Suc k) C"
    by (rule filter_cong) (use levelled_step[OF lv] in auto)
  finally show ?thesis by simp
qed

lemma levels_buildGraph:
  assumes lv: "levelled lvl C" and di: "distinct (map id' C)"
  shows "mset is = mset (map id' (filter (\<lambda>c. lvl (id' c) = k) C)) \<Longrightarrow>
     levels f (nodes (buildGraph C)) is =
       mset (map id' (filter (\<lambda>c. k \<le> lvl (id' c) \<and> lvl (id' c) < k + f) C))"
proof (induction f arbitrary: "is" k)
  case 0
  then show ?case by simp
next
  case (Suc f)
  let ?m = "nodes (buildGraph C)"
  let ?here = "\<lambda>c. lvl (id' c) = k"
  let ?below = "\<lambda>c. Suc k \<le> lvl (id' c) \<and> lvl (id' c) < Suc k + f"
  let ?both = "\<lambda>c. k \<le> lvl (id' c) \<and> lvl (id' c) < k + Suc f"
  have below: "levels f ?m (nextGen ?m is) = mset (map id' (filter ?below C))"
    by (rule Suc.IH) (rule nextGen_level[OF lv di Suc.prems])
  have split: "mset (filter ?here C) + mset (filter ?below C) = mset (filter ?both C)"
    by (induction C) auto
  have "levels (Suc f) ?m is = mset is + levels f ?m (nextGen ?m is)"
    by simp
  also have "\<dots> = mset (map id' (filter ?here C)) + mset (map id' (filter ?below C))"
    by (simp only: Suc.prems below)
  also have "\<dots> = image_mset id' (mset (filter ?here C) + mset (filter ?below C))"
    by simp
  also have "\<dots> = image_mset id' (mset (filter ?both C))"
    by (simp only: split)
  finally show ?case by simp
qed

lemma exhausted_buildGraph:
  assumes lv: "levelled lvl C" and di: "distinct (map id' C)"
  shows "mset is = mset (map id' (filter (\<lambda>c. lvl (id' c) = k) C)) \<Longrightarrow>
     \<forall>c\<in>set C. lvl (id' c) < k + f \<Longrightarrow> exhausted f (nodes (buildGraph C)) is"
proof (induction f arbitrary: "is" k)
  case 0
  then have "filter (\<lambda>c. lvl (id' c) = k) C = []"
    by (auto simp: filter_empty_conv)
  with 0 show ?case by simp
next
  case (Suc f)
  show ?case
    using Suc.IH[OF nextGen_level[OF lv di Suc.prems(1)]] Suc.prems(2) by simp
qed

lemma level_inhabited:
  "levelled lvl C \<Longrightarrow> c \<in> set C \<Longrightarrow> lvl (id' c) = n \<Longrightarrow> j \<le> n \<Longrightarrow> \<exists>d\<in>set C. lvl (id' d) = j"
proof (induction n arbitrary: c)
  case 0
  then show ?case by auto
next
  case (Suc n)
  show ?case
  proof (cases "j = Suc n")
    case True
    with Suc.prems show ?thesis by auto
  next
    case False
    with Suc.prems have j: "j \<le> n" by simp
    from Suc.prems have nr: "\<not> isRootIn C c" by (auto simp: levelled_root)
    with Suc.prems obtain p where p: "parentRef c = Some p" "lvl (id' c) = Suc (lvl p)"
      by (auto simp: levelled_def split: if_splits)
    from nr p have "p \<in> id' ` set C" by (auto simp: isRootIn_def)
    then obtain c' where "c' \<in> set C" "id' c' = p" by auto
    with p Suc.prems(3) show ?thesis
      using Suc.IH[OF Suc.prems(1) _ _ j, of c'] by simp
  qed
qed

lemma level_bound:
  assumes "levelled lvl C" "c \<in> set C"
  shows "lvl (id' c) < length C"
proof -
  have "{..lvl (id' c)} \<subseteq> (\<lambda>d. lvl (id' d)) ` set C"
    using level_inhabited[OF assms refl] by auto
  then have "card {..lvl (id' c)} \<le> card ((\<lambda>d. lvl (id' d)) ` set C)"
    by (intro card_mono) simp_all
  also have "\<dots> \<le> card (set C)" by (rule card_image_le) simp
  also have "\<dots> \<le> length C" by (rule card_length)
  finally show ?thesis by simp
qed

lemma find_SomeD: "find P xs = Some x \<Longrightarrow> P x \<and> x \<in> set xs"
  by (induction xs) (auto split: if_splits)

lemma find_last_distinct:
  "distinct (map id' C) \<Longrightarrow> c \<in> set C \<Longrightarrow> find (\<lambda>x. id' x = id' c) (rev C) = Some c"
proof -
  assume di: "distinct (map id' C)" and c: "c \<in> set C"
  then obtain x where x: "find (\<lambda>x. id' x = id' c) (rev C) = Some x"
    by (cases "find (\<lambda>x. id' x = id' c) (rev C)") (auto simp: find_None_iff)
  then have "id' x = id' c" "x \<in> set C"
    by (auto dest!: find_SomeD)
  with di c have "x = c"
    by (auto simp: distinct_map dest: inj_onD)
  with x show ?thesis by simp
qed

lemma buildGraph_dom: "dom (nodes (buildGraph C)) = id' ` set C"
  by (auto simp: dom_def buildGraph_nodes find_None_iff)

lemma buildGraph_closed: "closed (nodes (buildGraph C))"
  unfolding closed_def buildGraph_dom
  by (auto simp: buildGraph_nodes)

lemma buildGraph_id:
  "nodes (buildGraph C) i = Some n \<Longrightarrow> id' (comment_fields n) = i \<and> comment_fields n \<in> set C"
  by (auto simp: buildGraph_nodes dest!: find_SomeD)

lemma buildGraph_replies:
  "nodes (buildGraph C) i = Some n \<Longrightarrow> replies n = map id' (filter (isReplyTo i) C)"
  by (auto simp: buildGraph_nodes)

lemma cm_buildGraph:
  "distinct (map id' C) \<Longrightarrow> c \<in> set C \<Longrightarrow> cm (nodes (buildGraph C)) (id' c) = c"
  by (simp add: cm_def buildGraph_nodes find_last_distinct)

lemma buildTree_levelled:
  assumes lv: "levelled lvl C" and di: "distinct (map id' C)"
  shows "\<exists>t. buildTree C = Some t \<and> mset (preorder t) = mset C"
proof -
  let ?m = "nodes (buildGraph C)"
  let ?rs = "rootComments (buildGraph C)"
  have rs: "?rs = map id' (filter (\<lambda>c. lvl (id' c) = 0) C)"
    unfolding buildGraph_roots
    by (rule arg_cong[where f = "map id'"], rule filter_cong) (simp_all add: levelled_root[OF lv])
  then have rs': "mset ?rs = mset (map id' (filter (\<lambda>c. lvl (id' c) = 0) C))" by simp
  have bound: "\<forall>c\<in>set C. lvl (id' c) < 0 + length C"
    using level_bound[OF lv] by simp
  have ex: "exhausted (length C) ?m ?rs"
    by (rule exhausted_buildGraph[OF lv di rs' bound])
  have "filter (\<lambda>c. 0 \<le> lvl (id' c) \<and> lvl (id' c) < 0 + length C) C = C"
    using bound by (simp add: filter_id_conv)
  then have lev: "levels (length C) ?m ?rs = mset (map id' C)"
    using levels_buildGraph[OF lv di rs', of "length C"] by simp
  have sub: "set ?rs \<subseteq> dom ?m"
    by (auto simp: buildGraph_roots buildGraph_dom)
  from nested_levels[OF buildGraph_closed sub ex] obtain t where
    t: "nested (length C) ?m ?rs = Some t"
      "mset (preorder t) = image_mset (cm ?m) (levels (length C) ?m ?rs)" by blast
  have "map (cm ?m) (map id' C) = C"
    by (simp add: map_idI cm_buildGraph[OF di])
  then have "image_mset (cm ?m) (mset (map id' C)) = mset C"
    by (metis mset_map)
  with t lev show ?thesis
    by (simp add: buildTree_def Let_def)
qed

lemma nested_roots: "nested f m is = Some t \<Longrightarrow> list_all2 (reads m) is t"
  by (induction f m "is" arbitrary: t rule: nested.induct)
     (auto simp: reads_def split: option.splits)

lemma nested_nodes:
  "nested f m is = Some t \<Longrightarrow> nd \<in> set (allNodes t) \<Longrightarrow>
     \<exists>i n. m i = Some n \<and> label nd = comment_fields n \<and> list_all2 (reads m) (replies n) (children nd)"
proof (induction f m "is" arbitrary: t rule: nested.induct)
  case (1 fuel m)
  then show ?case by simp
next
  case (2 m r rs)
  then show ?case by simp
next
  case (3 fuel m r rs)
  from "3.prems"(1) obtain n kids rest where
    n: "m r = Some n" and kids: "nested fuel m (replies n) = Some kids"
    and rest: "nested (Suc fuel) m rs = Some rest" and t: "t = Node (comment_fields n) kids # rest"
    by (auto split: option.splits)
  from "3.prems"(2) t consider "nd = Node (comment_fields n) kids"
    | "nd \<in> set (allNodes kids)" | "nd \<in> set (allNodes rest)" by auto
  then show ?case
  proof cases
    case 1
    with n nested_roots[OF kids] show ?thesis by auto
  next
    case 2
    from "3.IH"(1)[OF n kids 2] show ?thesis .
  next
    case 3
    from "3.IH"(2)[OF n kids rest 3] show ?thesis .
  qed
qed

lemma reads_ids:
  "list_all2 (reads (nodes (buildGraph C))) is t \<Longrightarrow> map (\<lambda>nd. id' (label nd)) t = is"
  by (induction "is" t rule: list_all2_induct) (auto simp: reads_def dest: buildGraph_id)

lemma reads_labels:
  "distinct (map id' C) \<Longrightarrow> set xs \<subseteq> set C \<Longrightarrow>
     list_all2 (reads (nodes (buildGraph C))) (map id' xs) t \<Longrightarrow> map label t = xs"
proof (induction xs arbitrary: t)
  case Nil
  then show ?case by simp
next
  case (Cons x xs)
  from Cons.prems(3) obtain nd t' where t: "t = nd # t'"
    and nd: "reads (nodes (buildGraph C)) (id' x) nd"
    and t': "list_all2 (reads (nodes (buildGraph C))) (map id' xs) t'"
    by (auto simp: list_all2_Cons1)
  from Cons.prems have "x \<in> set C" by simp
  with nd Cons.prems(1) have "label nd = x"
    by (auto simp: reads_def buildGraph_nodes find_last_distinct)
  with Cons t t' show ?case by simp
qed

lemma allNodes_preorder: "map label (allNodes t) = preorder t"
  by (induction t rule: preorder.induct) simp_all

lemma node_precedes_descendants:
  "nd \<in> set (allNodes t) \<Longrightarrow>
     \<exists>before after. preorder t = before @ label nd # preorder (children nd) @ after"
proof (induction t rule: preorder.induct)
  case 1
  then show ?case by simp
next
  case (2 c rs ns)
  from "2.prems" consider "nd = Node c rs" | "nd \<in> set (allNodes rs)" | "nd \<in> set (allNodes ns)"
    by auto
  then show ?case
  proof cases
    case 1
    then have "preorder (Node c rs # ns) = [] @ label nd # preorder (children nd) @ preorder ns"
      by simp
    then show ?thesis by blast
  next
    case 2
    from "2.IH"(1)[OF 2] obtain b a where "preorder rs = b @ label nd # preorder (children nd) @ a"
      by blast
    then have "preorder (Node c rs # ns) = (c # b) @ label nd # preorder (children nd) @ (a @ preorder ns)"
      by simp
    then show ?thesis by blast
  next
    case 3
    from "2.IH"(2)[OF 3] obtain b a where "preorder ns = b @ label nd # preorder (children nd) @ a"
      by blast
    then have "preorder (Node c rs # ns) = (c # preorder rs @ b) @ label nd # preorder (children nd) @ a"
      by simp
    then show ?thesis by blast
  qed
qed

subsection \<open>The forest returned by buildTree\<close>

lemmas example_defs = mkComment_def parentRef_def js_or_def truthy_def isRootIn_def isReplyTo_def
lemmas build_defs = buildTree_def buildGraph_def firstPass_def link_def

lemma buildTree_shape:
  assumes di: "distinct (map id' C)" and lv: "levelled lvl C"
  shows "\<exists>t. buildTree C = Some t
           \<and> map label t = filter (isRootIn C) C
           \<and> (\<forall>nd\<in>set (allNodes t). map label (children nd) = filter (isReplyTo (id' (label nd))) C)
           \<and> mset (preorder t) = mset C"
proof -
  let ?m = "nodes (buildGraph C)"
  from buildTree_levelled[OF lv di] obtain t where
    t: "buildTree C = Some t" and ms: "mset (preorder t) = mset C" by blast
  from t have ne: "nested (length C) ?m (rootComments (buildGraph C)) = Some t"
    by (simp add: buildTree_def Let_def)
  have "list_all2 (reads ?m) (map id' (filter (isRootIn C) C)) t"
    using nested_roots[OF ne] by (simp add: buildGraph_roots)
  then have roots: "map label t = filter (isRootIn C) C"
    by (rule reads_labels[OF di, rotated]) simp
  have kids: "map label (children nd) = filter (isReplyTo (id' (label nd))) C"
    if "nd \<in> set (allNodes t)" for nd
  proof -
    from nested_nodes[OF ne that] obtain i n where
      n: "?m i = Some n" "label nd = comment_fields n"
        "list_all2 (reads ?m) (replies n) (children nd)" by blast
    from n(1,2) have i: "id' (label nd) = i" by (simp add: buildGraph_id)
    from n(3) have "list_all2 (reads ?m) (map id' (filter (isReplyTo i) C)) (children nd)"
      by (simp add: buildGraph_replies[OF n(1)])
    then have "map label (children nd) = filter (isReplyTo i) C"
      by (rule reads_labels[OF di, rotated]) simp
    with i show ?thesis by simp
  qed
  from t roots kids ms show ?thesis by blast
qed

text \<open>
  Claim C1, as amended. Let the identifiers of the collection \<open>C\<close> be pairwise
  distinct and its parent links acyclic (the comments can be given levels). Then
  \<open>buildTree\<close> returns a forest whose roots are, in input order, the comments whose
  parent identifier is absent, empty or not an identifier of \<open>C\<close>; the children of
  every node are, in input order, the comments that name it as parent; every comment
  of \<open>C\<close> is exactly one node of the forest; and \<open>countComments\<close> of the forest is
  the number of comments of \<open>C\<close>.
\<close>

theorem buildTree_partition_count:
  assumes "distinct (map id' C)" and "levelled lvl C"
  shows "\<exists>t. buildTree C = Some t
           \<and> map label t = filter (isRootIn C) C
           \<and> (\<forall>nd\<in>set (allNodes t). map label (children nd) = filter (isReplyTo (id' (label nd))) C)
           \<and> mset (map label (allNodes t)) = mset C
           \<and> countComments t = length C"
proof -
  from buildTree_shape[OF assms] obtain t where
    t: "buildTree C = Some t" "map label t = filter (isRootIn C) C"
      "\<forall>nd\<in>set (allNodes t). map label (children nd) = filter (isReplyTo (id' (label nd))) C"
      "mset (preorder t) = mset C" by blast
  from t(4) have "length (preorder t) = length C"
    by (metis size_mset)
  with t show ?thesis
    by (auto simp: allNodes_preorder countComments_preorder)
qed

theorem buildTree_partition_count_witness:
  "distinct (map id' exampleThread) \<and> levelled exampleLevel exampleThread
   \<and> (\<exists>t. buildTree exampleThread = Some t
           \<and> map label t = filter (isRootIn exampleThread) exampleThread
           \<and> (\<forall>nd\<in>set (allNodes t).
                 map label (children nd) = filter (isReplyTo (id' (label nd))) exampleThread)
           \<and> mset (map label (allNodes t)) = mset exampleThread
           \<and> countComments t = length exampleThread)"
proof -
  have d: "distinct (map id' exampleThread)"
    by (simp add: exampleThread_def mkComment_def)
  have l: "levelled exampleLevel exampleThread"
    by (simp add: levelled_def exampleLevel_def exampleThread_def example_defs)
  show ?thesis
    using d l buildTree_partition_count[OF d l] by simp
qed

text \<open>
  The claim as stated, for every collection, fails: a comment that is its own parent is
  attached to itself and is not reached from any root, so the count is 0; two comments
  with one identifier share one node, so a reply to it is counted twice; and a comment
  whose \<open>parentId\<close> is the empty string is a root even when a comment with the empty
  identifier exists.
\<close>

theorem buildTree_count_counterexample:
  "map_option countComments (buildTree selfReply) = Some 0 \<and> length selfReply = 1
   \<and> map_option countComments (buildTree duplicateIds) = Some 4 \<and> length duplicateIds = 3
   \<and> rootComments (buildGraph emptyParent) = [[], ''a'']
   \<and> parentId (emptyParent ! 1) = Some (id' (emptyParent ! 0))"
  by (simp add: build_defs example_defs selfReply_def duplicateIds_def emptyParent_def countComments_def)

text \<open>
  Claim C2. For every collection \<open>C\<close> and every parent \<open>p\<close>, the \<open>replies\<close> array of
  the node of \<open>p\<close> holds the comments of \<open>C\<close> that name \<open>p\<close> as parent, in the order in
  which they occur in \<open>C\<close>: in the node map built by the second pass, and at every node
  of the forest that is returned.
\<close>

theorem buildTree_sibling_order:
  "(nodes (buildGraph C) p = Some n \<longrightarrow> replies n = map id' (filter (isReplyTo p) C))
   \<and> (buildTree C = Some t \<longrightarrow> nd \<in> set (allNodes t) \<longrightarrow>
        map (\<lambda>k. id' (label k)) (children nd) = map id' (filter (isReplyTo (id' (label nd))) C))"
proof (intro conjI impI)
  assume "nodes (buildGraph C) p = Some n"
  then show "replies n = map id' (filter (isReplyTo p) C)"
    by (rule buildGraph_replies)
next
  let ?m = "nodes (buildGraph C)"
  assume "buildTree C = Some t" and nd: "nd \<in> set (allNodes t)"
  then have ne: "nested (length C) ?m (rootComments (buildGraph C)) = Some t"
    by (simp add: buildTree_def Let_def)
  from nested_nodes[OF ne nd] obtain i n where
    n: "?m i = Some n" "label nd = comment_fields n"
      "list_all2 (reads ?m) (replies n) (children nd)" by blast
  from n(1,2) have "id' (label nd) = i" by (simp add: buildGraph_id)
  with reads_ids[OF n(3)] buildGraph_replies[OF n(1)]
  show "map (\<lambda>k. id' (label k)) (children nd) = map id' (filter (isReplyTo (id' (label nd))) C)"
    by simp
qed

theorem buildTree_sibling_order_witness:
  "nodes (buildGraph siblings) ''1'' = Some \<lparr>comment_fields = mkComment ''1'' None, replies = [''2'', ''3'']\<rparr>
   \<and> [''2'', ''3''] = map id' (filter (isReplyTo ''1'') siblings)
   \<and> buildTree siblings =
        Some [Node (mkComment ''1'' None) [Node (mkComment ''2'' (Some ''1'')) [], Node (mkComment ''3'' (Some ''1'')) []],
              Node (mkComment ''4'' None) []]
   \<and> map (\<lambda>k. id' (label k)) [Node (mkComment ''2'' (Some ''1'')) [], Node (mkComment ''3'' (Some ''1'')) []]
        = map id' (filter (isReplyTo (id' (mkComment ''1'' None))) siblings)"
proof -
  let ?n = "\<lparr>comment_fields = mkComment ''1'' None, replies = [''2'', ''3'']\<rparr>"
  let ?kids = "[Node (mkComment ''2'' (Some ''1'')) [], Node (mkComment ''3'' (Some ''1'')) []]"
  let ?t = "[Node (mkComment ''1'' None) ?kids, Node (mkComment ''4'' None) []]"
  have a: "nodes (buildGraph siblings) ''1'' = Some ?n"
    by (simp add: build_defs example_defs siblings_def)
  have b: "buildTree siblings = Some ?t"
    by (simp add: build_defs example_defs siblings_def)
  have c: "Node (mkComment ''1'' None) ?kids \<in> set (allNodes ?t)"
    by simp
  from buildTree_sibling_order[of siblings "''1''" ?n ?t "Node (mkComment ''1'' None) ?kids"] a b c
  show ?thesis by simp
qed

text \<open>
  Claim C3, as amended. \<open>flattenTree\<close> is the pre-order traversal of the forest it is
  given: it emits every node exactly once, as the comment without its children, and the
  comment of a node is followed at once by the flattening of its children, so a parent
  precedes all of its descendants. For a collection \<open>X\<close> with pairwise distinct
  identifiers and acyclic parent links, \<open>flattenTree (buildTree X)\<close> has exactly the
  elements of \<open>X\<close>, in the pre-order of a forest whose roots and whose sibling lists
  keep the order of \<open>X\<close>.
\<close>

theorem flattenTree_preorder_roundtrip:
  assumes "distinct (map id' X)" and "levelled lvl X"
  shows "flattenTree forest = preorder forest
     \<and> flattenTree forest = map label (allNodes forest)
     \<and> length (flattenTree forest) = countComments forest
     \<and> (\<forall>nd\<in>set (allNodes forest).
           \<exists>before after. flattenTree forest = before @ label nd # flattenTree (children nd) @ after)
     \<and> (\<exists>t. buildTree X = Some t
           \<and> mset (flattenTree t) = mset X
           \<and> map label t = filter (isRootIn X) X
           \<and> (\<forall>nd\<in>set (allNodes t). map label (children nd) = filter (isReplyTo (id' (label nd))) X))"
proof -
  have a: "flattenTree forest = preorder forest"
    by (rule flattenTree_preorder)
  have b: "flattenTree forest = map label (allNodes forest)"
    by (simp add: flattenTree_preorder allNodes_preorder)
  have c: "length (flattenTree forest) = countComments forest"
    by (simp add: flattenTree_preorder countComments_preorder)
  have d: "\<forall>nd\<in>set (allNodes forest).
      \<exists>before after. flattenTree forest = before @ label nd # flattenTree (children nd) @ after"
    using node_precedes_descendants[of _ forest] by (simp add: flattenTree_preorder)
  from buildTree_shape[OF assms] have e: "\<exists>t. buildTree X = Some t
      \<and> mset (flattenTree t) = mset X
      \<and> map label t = filter (isRootIn X) X
      \<and> (\<forall>nd\<in>set (allNodes t). map label (children nd) = filter (isReplyTo (id' (label nd))) X)"
    by (simp add: flattenTree_preorder) blast
  from a b c d e show ?thesis by blast
qed

theorem flattenTree_preorder_roundtrip_witness:
  "distinct (map id' exampleThread) \<and> levelled exampleLevel exampleThread
   \<and> flattenTree exampleForest = preorder exampleForest
   \<and> flattenTree exampleForest = map label (allNodes exampleForest)
   \<and> length (flattenTree exampleForest) = countComments exampleForest
   \<and> (\<exists>before after.
         flattenTree exampleForest
           = before @ label (exampleForest ! 1) # flattenTree (children (exampleForest ! 1)) @ after)
   \<and> (\<exists>t. buildTree exampleThread = Some t
         \<and> mset (flattenTree t) = mset exampleThread
         \<and> map label t = filter (isRootIn exampleThread) exampleThread
         \<and> (\<forall>nd\<in>set (allNodes t).
               map label (children nd) = filter (isReplyTo (id' (label nd))) exampleThread))"
proof -
  have d: "distinct (map id' exampleThread)"
    by (simp add: exampleThread_def mkComment_def)
  have l: "levelled exampleLevel exampleThread"
    by (simp add: levelled_def exampleLevel_def exampleThread_def example_defs)
  note t = flattenTree_preorder_roundtrip[OF d l, of exampleForest]
  have "exampleForest ! 1 \<in> set (allNodes exampleForest)"
    by (simp add: exampleForest_def)
  with t have "\<exists>before after.
         flattenTree exampleForest
           = before @ label (exampleForest ! 1) # flattenTree (children (exampleForest ! 1)) @ after"
    by blast
  with d l t show ?thesis by blast
qed

text \<open>
  Without these conditions the elements are not preserved: the self-parented comment is
  lost, and with a duplicated identifier the shared node and its reply are emitted
  twice.
\<close>

theorem flattenTree_roundtrip_counterexample:
  "map_option flattenTree (buildTree selfReply) = Some [] \<and> selfReply \<noteq> []
   \<and> map_option (\<lambda>t. map id' (flattenTree t)) (buildTree duplicateIds) = Some [''1'', ''2'', ''1'', ''2'']
   \<and> map id' duplicateIds = [''1'', ''1'', ''2'']"
  by (simp add: build_defs example_defs selfReply_def duplicateIds_def flattenTree_def)

section \<open>Properties of the ranking module\<close>

subsection \<open>Rounding and the controversy score\<close>

lemma round_ties_even_error: "\<bar>of_int (round_ties_even x) - x\<bar> \<le> 1 / 2"
proof -
  have "of_int \<lfloor>x\<rfloor> \<le> x" "x < of_int \<lfloor>x\<rfloor> + 1" by linarith+
  then show ?thesis
    by (auto simp: round_ties_even_def Let_def abs_le_iff)
qed

lemma round_ties_even_int: "round_ties_even (of_int k) = k"
  by (simp add: round_ties_even_def)

lemma exponent_bounds:
  assumes "0 < x"
  shows "2 powi (exponent x) \<le> x" and "x < 2 powi (exponent x + 1)"
proof -
  obtain p q where pq: "quotient_of x = (p, q)" by (cases "quotient_of x")
  then have q: "0 < q" and x: "x = of_int p / of_int q"
    by (auto dest: quotient_of_denom_pos quotient_of_div)
  with assms have p: "0 < p"
    by (simp add: zero_less_divide_iff)
  let ?bp = "bitlen p" and ?bq = "bitlen q"
  from bitlen_bounds[OF p] have p1: "(2::rat) ^ nat (?bp - 1) \<le> of_int p" and p2: "of_int p < (2::rat) ^ nat ?bp"
    by (metis of_int_le_iff of_int_numeral of_int_power, metis of_int_less_iff of_int_numeral of_int_power)
  from bitlen_bounds[OF q] have q1: "(2::rat) ^ nat (?bq - 1) \<le> of_int q" and q2: "of_int q < (2::rat) ^ nat ?bq"
    by (metis of_int_le_iff of_int_numeral of_int_power, metis of_int_less_iff of_int_numeral of_int_power)
  have bp: "1 \<le> ?bp" and bq: "1 \<le> ?bq"
    using p q bitlen_eq_zero_iff[of p] bitlen_eq_zero_iff[of q] bitlen_nonneg[of p] bitlen_nonneg[of q]
    by linarith+
  have pw: "(2::rat) ^ nat k = 2 powi k" if "0 \<le> k" for k
    using that by (simp add: power_int_def)
  have lo: "(2::rat) powi (?bp - ?bq - 1) < x"
  proof -
    have "(2::rat) powi (?bp - ?bq - 1) = 2 powi (?bp - 1) / 2 powi ?bq"
      by (simp add: power_int_diff)
    also have "\<dots> = 2 ^ nat (?bp - 1) / 2 ^ nat ?bq"
      using bp bq by (simp add: pw)
    also have "\<dots> < of_int p / of_int q"
      using p1 q2 p q by (intro frac_less2) auto
    finally show ?thesis by (simp add: x)
  qed
  have hi: "x < (2::rat) powi (?bp - ?bq + 1)"
  proof -
    have "of_int p / of_int q < (2::rat) ^ nat ?bp / 2 ^ nat (?bq - 1)"
      using p2 q1 p q by (intro frac_less) auto
    also have "\<dots> = 2 powi ?bp / 2 powi (?bq - 1)"
      using bp bq by (simp add: pw)
    also have "\<dots> = 2 powi (?bp - (?bq - 1))"
      by (subst power_int_diff) simp_all
    also have "?bp - (?bq - 1) = ?bp - ?bq + 1"
      by simp
    finally show ?thesis by (simp add: x)
  qed
  show "2 powi (exponent x) \<le> x"
    using lo by (auto simp: exponent_def Let_def pq)
  show "x < 2 powi (exponent x + 1)"
    using hi by (auto simp: exponent_def Let_def pq not_le)
qed

lemma fl_error: "\<bar>fl x - x\<bar> \<le> \<bar>x\<bar> / 2 ^ 53"
proof (cases "x = 0")
  case True
  then show ?thesis by (simp add: fl_def)
next
  case False
  let ?e = "exponent \<bar>x\<bar>"
  let ?ulp = "(2::rat) powi (?e - 52)"
  have pos: "0 < ?ulp" by simp
  have "fl x - x = (of_int (round_ties_even (x / ?ulp)) - x / ?ulp) * ?ulp"
    using False by (simp add: fl_def Let_def algebra_simps)
  then have "\<bar>fl x - x\<bar> = \<bar>of_int (round_ties_even (x / ?ulp)) - x / ?ulp\<bar> * ?ulp"
    by (simp add: abs_mult)
  also have "\<dots> \<le> 1 / 2 * ?ulp"
    by (intro mult_right_mono round_ties_even_error) simp
  also have "\<dots> = 2 powi ?e / 2 ^ 53"
    by (simp add: power_int_diff)
  also have "\<dots> \<le> \<bar>x\<bar> / 2 ^ 53"
    using exponent_bounds(1)[of "\<bar>x\<bar>"] False by (simp add: divide_right_mono)
  finally show ?thesis .
qed

lemma fl_int:
  assumes "\<bar>n\<bar> < 2 ^ 53"
  shows "fl (of_int n) = of_int n"
proof (cases "n = 0")
  case True
  then show ?thesis by (simp add: fl_def)
next
  case False
  let ?x = "of_int n :: rat"
  let ?e = "exponent \<bar>?x\<bar>"
  have x: "0 < \<bar>?x\<bar>" using False by simp
  have "2 powi ?e \<le> \<bar>?x\<bar>" by (rule exponent_bounds(1)[OF x])
  also have "\<bar>?x\<bar> < 2 ^ 53"
    using assms by (metis of_int_abs of_int_less_iff of_int_numeral of_int_power)
  finally have "(2::rat) powi ?e < 2 powi 53" by simp
  then have e: "?e < 53" by (intro power_int_le_imp_less_exp[of "2::rat"]) simp_all
  define k where "k = nat (52 - ?e)"
  have ulp: "(2::rat) powi (?e - 52) = 1 / 2 ^ k"
    using e by (simp add: k_def power_int_def divide_simps)
  have "?x / (2 powi (?e - 52)) = of_int (n * 2 ^ k)"
    by (simp add: ulp)
  then have "round_ties_even (?x / (2 powi (?e - 52))) = n * 2 ^ k"
    by (simp only: round_ties_even_int)
  then show ?thesis
    using False by (simp add: fl_def Let_def ulp)
qed

lemma rounding_chain:
  fixes t a q b r e :: rat
  assumes t: "0 < t" and a: "0 \<le> a" "a \<le> t" and e: "0 \<le> e" "e \<le> 1 / 4"
    and q: "\<bar>q - a / t\<bar> \<le> \<bar>a / t\<bar> * e"
    and b: "\<bar>b - (1 - q)\<bar> \<le> \<bar>1 - q\<bar> * e"
    and r: "\<bar>r - t * b\<bar> \<le> \<bar>t * b\<bar> * e"
  shows "\<bar>r - (t - a)\<bar> \<le> 4 * t * e"
proof -
  have at: "0 \<le> a / t" "a / t \<le> 1" using t a by simp_all
  then have "\<bar>a / t\<bar> * e \<le> 1 * e"
    using e by (intro mult_right_mono) simp_all
  with q have q1: "\<bar>q - a / t\<bar> \<le> e" by simp
  have "t * q - a = t * (q - a / t)" using t by (simp add: algebra_simps)
  then have "\<bar>t * q - a\<bar> = t * \<bar>q - a / t\<bar>" using t by (simp add: abs_mult)
  also have "\<dots> \<le> t * e" using q1 t by (intro mult_left_mono) simp_all
  finally have d1: "\<bar>t * q - a\<bar> \<le> t * e" .
  have q2: "\<bar>1 - q\<bar> \<le> 1 + e" using q1 at by (simp add: abs_le_iff)
  then have "\<bar>1 - q\<bar> * e \<le> (1 + e) * e"
    using e by (intro mult_right_mono) simp_all
  with b have b1: "\<bar>b - (1 - q)\<bar> \<le> (1 + e) * e" by simp
  with q2 have b2: "\<bar>b\<bar> \<le> (1 + e) + (1 + e) * e" by (simp add: abs_le_iff)
  have "t * \<bar>b - (1 - q)\<bar> \<le> t * ((1 + e) * e)"
    using b1 t by (intro mult_left_mono) simp_all
  then have d2: "\<bar>t * b - t * (1 - q)\<bar> \<le> t * ((1 + e) * e)"
    using t by (simp add: abs_mult flip: right_diff_distrib)
  have "\<bar>t * b\<bar> = t * \<bar>b\<bar>" using t by (simp add: abs_mult)
  also have "\<dots> \<le> t * ((1 + e) + (1 + e) * e)"
    using b2 t by (intro mult_left_mono) simp_all
  finally have "\<bar>t * b\<bar> * e \<le> t * ((1 + e) + (1 + e) * e) * e"
    using e by (intro mult_right_mono) simp_all
  with r have d3: "\<bar>r - t * b\<bar> \<le> t * ((1 + e) + (1 + e) * e) * e" by simp
  define x y z where "x = r - t * b" and "y = t * b - t * (1 - q)" and "z = t * q - a"
  have "r - (t - a) = x + y - z"
    by (simp add: x_def y_def z_def algebra_simps)
  moreover have "\<bar>x + y - z\<bar> \<le> \<bar>x\<bar> + \<bar>y\<bar> + \<bar>z\<bar>"
    by linarith
  ultimately have "\<bar>r - (t - a)\<bar> \<le> \<bar>r - t * b\<bar> + \<bar>t * b - t * (1 - q)\<bar> + \<bar>t * q - a\<bar>"
    by (simp only: x_def y_def z_def)
  also have "\<dots> \<le> t * ((1 + e) + (1 + e) * e) * e + t * ((1 + e) * e) + t * e"
    using d1 d2 d3 by simp
  also have "\<dots> = (t * e) * (3 + 3 * e + e * e)"
    by (simp add: algebra_simps)
  also have "\<dots> \<le> (t * e) * 4"
  proof (intro mult_left_mono)
    have "e * e \<le> 1 / 4 * e" using e by (intro mult_right_mono) simp_all
    with e show "3 + 3 * e + e * e \<le> 4" by simp
    show "0 \<le> t * e" using t e by simp
  qed
  finally show ?thesis by (simp add: mult_ac)
qed

lemma controversyScore_closed_form:
  "controversyScore c =
     (if upvotesOf c + downvotesOf c = 0 then 0
      else of_int (upvotesOf c + downvotesOf c - \<bar>upvotesOf c - downvotesOf c\<bar>))"
proof -
  have "(of_int (upvotesOf c) + of_int (downvotesOf c) = (0::rat)) = (upvotesOf c + downvotesOf c = 0)"
    by (metis of_int_add of_int_eq_0_iff)
  then show ?thesis
    by (simp add: controversyScore_def Let_def right_diff_distrib)
qed

lemma calculateControversy_unfold:
  assumes "0 \<le> upvotesOf c" "0 \<le> downvotesOf c" "upvotesOf c + downvotesOf c < 2 ^ 53"
  shows "calculateControversy c =
     (let t = of_int (upvotesOf c + downvotesOf c); a = of_int \<bar>upvotesOf c - downvotesOf c\<bar>
      in if t = 0 then 0 else fl (t * fl (1 - fl (a / t))))"
proof -
  have "\<bar>upvotesOf c + downvotesOf c\<bar> < 2 ^ 53" "\<bar>upvotesOf c - downvotesOf c\<bar> < 2 ^ 53"
    using assms by simp_all
  then have "fl (of_int (upvotesOf c) + of_int (downvotesOf c)) = of_int (upvotesOf c + downvotesOf c)"
    and "fl (of_int (upvotesOf c) - of_int (downvotesOf c)) = of_int (upvotesOf c - downvotesOf c)"
    using fl_int[of "upvotesOf c + downvotesOf c"] fl_int[of "upvotesOf c - downvotesOf c"]
    by simp_all
  then show ?thesis
    by (simp add: calculateControversy_def upvotesOf_def downvotesOf_def Let_def
             split: option.splits)
qed

lemma calculateControversy_error:
  assumes "0 \<le> upvotesOf c" "0 \<le> downvotesOf c" "upvotesOf c + downvotesOf c < 2 ^ 53"
  shows "\<bar>calculateControversy c - controversyScore c\<bar>
           \<le> of_int (upvotesOf c + downvotesOf c) / 2 ^ 51"
proof (cases "upvotesOf c + downvotesOf c = 0")
  case True
  then show ?thesis
    using assms by (simp add: calculateControversy_unfold controversyScore_closed_form)
next
  case False
  define t :: rat where "t = of_int (upvotesOf c + downvotesOf c)"
  define a :: rat where "a = of_int \<bar>upvotesOf c - downvotesOf c\<bar>"
  define q where "q = fl (a / t)"
  define b where "b = fl (1 - q)"
  define r where "r = fl (t * b)"
  have t: "0 < t" using assms False by (simp add: t_def)
  have a: "0 \<le> a" "a \<le> t"
    unfolding a_def t_def using assms by (simp, metis abs_triangle_ineq4 abs_of_nonneg of_int_le_iff)
  have calc: "calculateControversy c = r"
    using False assms
    by (simp add: calculateControversy_unfold Let_def r_def b_def q_def t_def a_def)
  have exact: "controversyScore c = t - a"
    using False by (simp add: controversyScore_closed_form t_def a_def)
  have "\<bar>r - (t - a)\<bar> \<le> 4 * t * (1 / 2 ^ 53)"
  proof (rule rounding_chain[OF t a, where q = q and b = b])
    show "\<bar>q - a / t\<bar> \<le> \<bar>a / t\<bar> * (1 / 2 ^ 53)"
      using fl_error[of "a / t"] by (simp add: q_def)
    show "\<bar>b - (1 - q)\<bar> \<le> \<bar>1 - q\<bar> * (1 / 2 ^ 53)"
      using fl_error[of "1 - q"] by (simp add: b_def)
    show "\<bar>r - t * b\<bar> \<le> \<bar>t * b\<bar> * (1 / 2 ^ 53)"
      using fl_error[of "t * b"] by (simp add: r_def)
  qed simp_all
  then show ?thesis
    by (simp add: calc exact t_def)
qed

lemma calculateControversy_balanced:
  assumes "0 \<le> upvotesOf c" "upvotesOf c = downvotesOf c" "upvotesOf c + downvotesOf c < 2 ^ 53"
  shows "calculateControversy c = controversyScore c"
proof -
  have "fl 1 = 1" using fl_int[of 1] by simp
  moreover have "fl 0 = 0" by (simp add: fl_def)
  moreover have "fl (of_int (2 * downvotesOf c)) = of_int (2 * downvotesOf c)"
    using assms by (intro fl_int) simp
  ultimately show ?thesis
    using assms
    by (simp add: calculateControversy_unfold controversyScore_closed_form Let_def)
qed

text \<open>
  Claim C6, as amended. For vote counts that are non-negative integers with a total
  below \<open>2^53\<close>, \<open>calculateControversy\<close> is 0 when the total is 0; otherwise it is the
  double-precision value of \<open>t * (1 - |u - d| / t)\<close>, which lies within \<open>t / 2^51\<close>
  of the exact value \<open>t - |u - d|\<close> and equals it when \<open>u = d\<close>. The score of 10
  upvotes and 1 downvote is below that of 5 and 5, and the score of no votes is 0.
\<close>

theorem calculateControversy_rounded:
  assumes "0 \<le> upvotesOf c" "0 \<le> downvotesOf c" "upvotesOf c + downvotesOf c < 2 ^ 53"
  shows "(upvotesOf c + downvotesOf c = 0 \<longrightarrow> calculateControversy c = 0)
     \<and> controversyScore c =
           (if upvotesOf c + downvotesOf c = 0 then 0
            else of_int (upvotesOf c + downvotesOf c - \<bar>upvotesOf c - downvotesOf c\<bar>))
     \<and> \<bar>calculateControversy c - controversyScore c\<bar>
           \<le> of_int (upvotesOf c + downvotesOf c) / 2 ^ 51
     \<and> (upvotesOf c = downvotesOf c \<longrightarrow> calculateControversy c = controversyScore c)
     \<and> calculateControversy (mkVotes 10 1) < calculateControversy (mkVotes 5 5)
     \<and> calculateControversy (mkVotes 0 0) = 0"
proof -
  have a: "upvotesOf c + downvotesOf c = 0 \<longrightarrow> calculateControversy c = 0"
    using assms by (simp add: calculateControversy_unfold)
  have b: "upvotesOf c = downvotesOf c \<longrightarrow> calculateControversy c = controversyScore c"
    using assms calculateControversy_balanced[of c] by simp
  have c: "calculateControversy (mkVotes 10 1) < calculateControversy (mkVotes 5 5)"
    by code_simp
  have d: "calculateControversy (mkVotes 0 0) = 0"
    by code_simp
  from a b c d controversyScore_closed_form[of c] calculateControversy_error[OF assms]
  show ?thesis by (intro conjI)
qed

theorem calculateControversy_rounded_witness:
  "0 \<le> upvotesOf (mkVotes 10 1) \<and> 0 \<le> downvotesOf (mkVotes 10 1)
   \<and> upvotesOf (mkVotes 10 1) + downvotesOf (mkVotes 10 1) < 2 ^ 53
   \<and> controversyScore (mkVotes 10 1) = 2
   \<and> \<bar>calculateControversy (mkVotes 10 1) - 2\<bar> \<le> 11 / 2 ^ 51"
proof -
  have u: "upvotesOf (mkVotes 10 1) = 10" and d: "downvotesOf (mkVotes 10 1) = 1"
    by (simp_all add: upvotesOf_def downvotesOf_def mkVotes_def)
  have h1: "0 \<le> upvotesOf (mkVotes 10 1)" and h2: "0 \<le> downvotesOf (mkVotes 10 1)"
    and h3: "upvotesOf (mkVotes 10 1) + downvotesOf (mkVotes 10 1) < 2 ^ 53"
    by (simp_all add: u d)
  note t = calculateControversy_rounded[OF h1 h2 h3]
  from t have s: "controversyScore (mkVotes 10 1) = 2"
    by (simp add: u d)
  from t have "\<bar>calculateControversy (mkVotes 10 1) - controversyScore (mkVotes 10 1)\<bar>
      \<le> of_int (upvotesOf (mkVotes 10 1) + downvotesOf (mkVotes 10 1)) / 2 ^ 51"
    by (elim conjE)
  then have e: "\<bar>calculateControversy (mkVotes 10 1) - 2\<bar> \<le> 11 / 2 ^ 51"
    by (simp only: s u d) simp
  from h1 h2 h3 s e show ?thesis by (intro conjI)
qed

text \<open>
  The claim as stated, with equality to \<open>t - |u - d|\<close>, fails: for 10 upvotes and 1
  downvote the three rounded operations give \<open>2 - 2^-51\<close> (1.9999999999999996), not 2,
  while 1 upvote and 1 downvote give exactly 2.
\<close>

theorem calculateControversy_counterexample:
  "calculateControversy (mkVotes 10 1) = 2 - 1 / 2 ^ 51
   \<and> controversyScore (mkVotes 10 1) = 2
   \<and> calculateControversy (mkVotes 1 1) = 2
   \<and> controversyScore (mkVotes 1 1) = 2"
  by code_simp

subsection \<open>Sorting\<close>













section \<open>Properties of the engine\<close>

subsection \<open>Replies\<close>

lemma validateContent_error:
  "CommentSystem_validateContent opts v = Inl e \<Longrightarrow>
     e = CommentError ''Content is required'' ''EMPTY_CONTENT''
     \<or> e = CommentError ''Content cannot be empty'' ''EMPTY_CONTENT''
     \<or> e = CommentError (''Content exceeds maximum length of '' @ show_int (maxLength opts)) ''MAX_LENGTH''"
  by (auto simp: CommentSystem_validateContent_def Let_def split: if_splits jsval.splits)

lemma reply_resolved:
  assumes "truthy postId'" "truthy parentId'" "truthy authorId'"
    and "getComment (adapter sys) = Some get" "get st parentId' = Some parent"
    and "postId parent = postId' \<or> post_id parent = postId'"
  shows "CommentSystem_reply sys postId' parentId' authorId' content' now st =
     (if maxDepth (options sys) < parentDepth parent + 1
      then (Inl (CommentError (''Maximum comment depth of '' @ show_int (maxDepth (options sys))
                    @ '' exceeded'') ''MAX_DEPTH''), st)
      else (case CommentSystem_validateContent (options sys) content' of
              Inl e \<Rightarrow> (Inl e, st)
            | Inr v \<Rightarrow>
                (case saveComment (adapter sys) of
                   None \<Rightarrow> (Inl (TypeError ''this.adapter.saveComment is not a function''), st)
                 | Some save \<Rightarrow>
                     (Inr (fst (save now st (replyDraft postId' parentId' authorId' v (parentDepth parent + 1) now))),
                      snd (save now st (replyDraft postId' parentId' authorId' v (parentDepth parent + 1) now))))))"
  using assms
  by (auto simp: CommentSystem_reply_def parentDepth_def replyDraft_def Let_def split_beta
           split: option.splits sum.splits)

lemma reply_max_depth_iff:
  assumes "truthy postId'" "truthy parentId'" "truthy authorId'"
    and "getComment (adapter sys) = Some get" "get st parentId' = Some parent"
    and "postId parent = postId' \<or> post_id parent = postId'"
  shows "(\<exists>m. fst (CommentSystem_reply sys postId' parentId' authorId' content' now st)
               = Inl (CommentError m ''MAX_DEPTH''))
         \<longleftrightarrow> maxDepth (options sys) < parentDepth parent + 1"
  unfolding reply_resolved[OF assms]
  by (auto split: sum.splits option.splits dest!: validateContent_error)

lemma reply_success:
  assumes "truthy postId'" "truthy parentId'" "truthy authorId'"
    and "getComment (adapter sys) = Some get" "get st parentId' = Some parent"
    and "postId parent = postId' \<or> post_id parent = postId'"
    and "CommentSystem_reply sys postId' parentId' authorId' content' now st = (Inr c, st')"
  shows "\<exists>save v. saveComment (adapter sys) = Some save
           \<and> CommentSystem_validateContent (options sys) content' = Inr v
           \<and> (c, st') = save now st (replyDraft postId' parentId' authorId' v (parentDepth parent + 1) now)"
  using assms(7) unfolding reply_resolved[OF assms(1-6)]
  by (auto split: sum.splits option.splits if_splits)

lemma memorySystem_simps:
  "getComment (adapter (memorySystem opts)) = Some mem_getComment"
  "saveComment (adapter (memorySystem opts)) = Some mem_saveComment"
  "deleteComment (adapter (memorySystem opts)) = Some mem_deleteComment"
  "options (memorySystem opts) = opts"
  by (simp_all add: memorySystem_def createMemoryAdapter_def)

lemma mem_saveComment_saved:
  assumes "mem_saveComment now st d = (c, st')"
  shows "mem_getComment st' (Some (id' c)) = Some c"
    and "id' c \<noteq> []"
    and "postId c = postId d" and "parentId c = parentId d" and "depth c = depth d"
    and "post_id c = None"
  using assms
  by (auto simp: mem_saveComment_def generateId_def mem_getComment_def Let_def update_conv')

lemma replyChain_ok:
  assumes "post \<noteq> []" "author \<noteq> []"
    and "CommentSystem_validateContent opts (VStr body) = Inr v"
  shows "int n \<le> maxDepth opts \<Longrightarrow>
     chain_ok post n (replyChain (memorySystem opts) post author body now n st)"
proof (induction n)
  case 0
  obtain c st' where s: "mem_saveComment now st
      \<lparr>postId = Some post, authorId = Some author, content = v, parentId = None,
       depth = Some 0, score = Some 0, upvotes = Some 0, downvotes = Some 0,
       createdAt = Some now\<rparr> = (c, st')"
    by (cases "mem_saveComment now st
      \<lparr>postId = Some post, authorId = Some author, content = v, parentId = None,
       depth = Some 0, score = Some 0, upvotes = Some 0, downvotes = Some 0,
       createdAt = Some now\<rparr>")
  from mem_saveComment_saved[OF s] s assms show ?case
    by (simp add: chain_ok_def CommentSystem_create_def truthy_def memorySystem_simps)
next
  case (Suc n)
  then have "chain_ok post n (replyChain (memorySystem opts) post author body now n st)"
    by simp
  then obtain p st1 where
    r: "replyChain (memorySystem opts) post author body now n st = (Inr p, st1)"
    and p: "depth p = Some (int n)" "mem_getComment st1 (Some (id' p)) = Some p"
      "postId p = Some post" "id' p \<noteq> []"
    by (auto simp: chain_ok_def split: prod.splits sum.splits)
  let ?d = "replyDraft (Some post) (Some (id' p)) (Some author) v (parentDepth p + 1) now"
  obtain c st' where s: "mem_saveComment now st1 ?d = (c, st')"
    by (cases "mem_saveComment now st1 ?d")
  have "CommentSystem_reply (memorySystem opts) (Some post) (Some (id' p)) (Some author) (VStr body) now st1
      = (Inr c, st')"
    using assms p s Suc.prems
    by (subst reply_resolved[where get = mem_getComment and parent = p])
       (simp_all add: truthy_def memorySystem_simps parentDepth_def)
  with r mem_saveComment_saved[OF s] p show ?case
    by (simp add: chain_ok_def replyDraft_def parentDepth_def)
qed

lemma replyChain_too_deep:
  assumes "post \<noteq> []" "author \<noteq> []"
    and "CommentSystem_validateContent opts (VStr body) = Inr v"
    and "0 \<le> maxDepth opts" "int n = maxDepth opts + 1"
  shows "\<exists>m. fst (replyChain (memorySystem opts) post author body now n st)
            = Inl (CommentError m ''MAX_DEPTH'')"
proof -
  from assms(4,5) obtain k where n: "n = Suc k" and k: "int k = maxDepth opts"
    by (cases n) auto
  from k have "chain_ok post k (replyChain (memorySystem opts) post author body now k st)"
    by (intro replyChain_ok[OF assms(1-3)]) simp
  then obtain p st1 where
    r: "replyChain (memorySystem opts) post author body now k st = (Inr p, st1)"
    and p: "depth p = Some (int k)" "mem_getComment st1 (Some (id' p)) = Some p"
      "postId p = Some post" "id' p \<noteq> []"
    by (auto simp: chain_ok_def split: prod.splits sum.splits)
  have "\<exists>m. fst (CommentSystem_reply (memorySystem opts) (Some post) (Some (id' p)) (Some author)
                (VStr body) now st1) = Inl (CommentError m ''MAX_DEPTH'')"
    using assms p k
    by (subst reply_max_depth_iff[where get = mem_getComment and parent = p])
       (simp_all add: truthy_def memorySystem_simps parentDepth_def)
  with r n show ?thesis by simp
qed

text \<open>
  Claim C4. When the identifiers are present, the parent resolves and belongs to the
  supplied post, \<open>reply\<close> fails with \<open>MAX_DEPTH\<close> exactly when the parent's depth
  plus one exceeds \<open>maxDepth\<close>, and a reply that succeeds is saved with exactly that
  depth. Hence, over the in-memory adapter, the \<open>n\<close>-th reply of a chain started at a
  root has depth \<open>n\<close> as long as \<open>n\<close> is at most \<open>maxDepth\<close>, and the reply after that
  fails with \<open>MAX_DEPTH\<close>.
\<close>

theorem reply_depth:
  assumes "truthy postId'" "truthy parentId'" "truthy authorId'"
    and "getComment (adapter sys) = Some get" "get st parentId' = Some parent"
    and "postId parent = postId' \<or> post_id parent = postId'"
    and "depth parent = Some d"
    and "post \<noteq> []" "author \<noteq> []"
    and "CommentSystem_validateContent opts (VStr body) = Inr v"
  shows "((\<exists>m. fst (CommentSystem_reply sys postId' parentId' authorId' content' now st)
                = Inl (CommentError m ''MAX_DEPTH''))
          \<longleftrightarrow> maxDepth (options sys) < d + 1)
     \<and> (\<forall>c st'. CommentSystem_reply sys postId' parentId' authorId' content' now st = (Inr c, st')
            \<longrightarrow> (\<exists>save v'. saveComment (adapter sys) = Some save
                   \<and> CommentSystem_validateContent (options sys) content' = Inr v'
                   \<and> (c, st') = save now st (replyDraft postId' parentId' authorId' v' (d + 1) now)))
     \<and> (int n \<le> maxDepth opts
          \<longrightarrow> (\<exists>c st'. replyChain (memorySystem opts) post author body now n st0 = (Inr c, st')
                 \<and> depth c = Some (int n)))
     \<and> (0 \<le> maxDepth opts \<and> int n = maxDepth opts + 1
          \<longrightarrow> (\<exists>m. fst (replyChain (memorySystem opts) post author body now n st0)
                   = Inl (CommentError m ''MAX_DEPTH'')))"
proof -
  from assms(7) have pd: "parentDepth parent = d" by (simp add: parentDepth_def)
  have a: "(\<exists>m. fst (CommentSystem_reply sys postId' parentId' authorId' content' now st)
                = Inl (CommentError m ''MAX_DEPTH''))
          \<longleftrightarrow> maxDepth (options sys) < d + 1"
    using reply_max_depth_iff[OF assms(1-6)] pd by simp
  have b: "\<forall>c st'. CommentSystem_reply sys postId' parentId' authorId' content' now st = (Inr c, st')
            \<longrightarrow> (\<exists>save v'. saveComment (adapter sys) = Some save
                   \<and> CommentSystem_validateContent (options sys) content' = Inr v'
                   \<and> (c, st') = save now st (replyDraft postId' parentId' authorId' v' (d + 1) now))"
    using reply_success[OF assms(1-6)] pd by simp
  have c: "int n \<le> maxDepth opts
          \<longrightarrow> (\<exists>c st'. replyChain (memorySystem opts) post author body now n st0 = (Inr c, st')
                 \<and> depth c = Some (int n))"
    using replyChain_ok[OF assms(8-10), of n now st0]
    by (auto simp: chain_ok_def split: prod.splits sum.splits)
  have d: "0 \<le> maxDepth opts \<and> int n = maxDepth opts + 1
          \<longrightarrow> (\<exists>m. fst (replyChain (memorySystem opts) post author body now n st0)
                   = Inl (CommentError m ''MAX_DEPTH''))"
    using replyChain_too_deep[OF assms(8-10)] by blast
  from a b c d show ?thesis by blast
qed

theorem reply_depth_witness:
  "truthy (Some ''post_1'') \<and> truthy (Some ''comment_1'') \<and> truthy (Some ''agent_2'')
   \<and> getComment (adapter (memorySystem testOptions)) = Some mem_getComment
   \<and> mem_getComment exampleStore (Some ''comment_1'') = Some storedRoot
   \<and> postId storedRoot = Some ''post_1'' \<and> depth storedRoot = Some 0
   \<and> CommentSystem_validateContent testOptions (VStr ''Depth'') = Inr ''Depth''
   \<and> \<not> (\<exists>m. fst (CommentSystem_reply (memorySystem testOptions) (Some ''post_1'') (Some ''comment_1'')
                    (Some ''agent_2'') (VStr ''Reply comment'') 1000 exampleStore)
                = Inl (CommentError m ''MAX_DEPTH''))
   \<and> (\<exists>c st'. replyChain (memorySystem testOptions) ''post_1'' ''agent_1'' ''Depth'' 1000 2
                  (snd createMemoryAdapter) = (Inr c, st') \<and> depth c = Some 2)
   \<and> (\<exists>m. fst (replyChain (memorySystem testOptions) ''post_1'' ''agent_1'' ''Depth'' 1000 3
                  (snd createMemoryAdapter)) = Inl (CommentError m ''MAX_DEPTH''))"
proof -
  have h1: "truthy (Some ''post_1'')" and h2: "truthy (Some ''comment_1'')"
    and h3: "truthy (Some ''agent_2'')"
    by (simp_all add: truthy_def)
  have h4: "getComment (adapter (memorySystem testOptions)) = Some mem_getComment"
    by (simp add: memorySystem_def createMemoryAdapter_def)
  have h5: "mem_getComment exampleStore (Some ''comment_1'') = Some storedRoot"
    by (simp add: mem_getComment_def exampleStore_def)
  have p: "postId storedRoot = Some ''post_1''"
    and h7: "depth storedRoot = Some 0"
    by (simp_all add: storedRoot_def mkComment_def)
  then have h6: "postId storedRoot = Some ''post_1'' \<or> post_id storedRoot = Some ''post_1''"
    by simp
  have h8: "''post_1'' \<noteq> []" and h9: "''agent_1'' \<noteq> []" by simp_all
  have h10: "CommentSystem_validateContent testOptions (VStr ''Depth'') = Inr ''Depth''"
    by (simp add: CommentSystem_validateContent_def trim_def is_space_def testOptions_def)
  note t = reply_depth[where sys = "memorySystem testOptions" and get = mem_getComment
      and st = exampleStore and parent = storedRoot and postId' = "Some ''post_1''"
      and parentId' = "Some ''comment_1''" and authorId' = "Some ''agent_2''" and d = 0
      and post = "''post_1''" and author = "''agent_1''" and opts = testOptions
      and body = "''Depth''" and v = "''Depth''"
      and content' = "VStr ''Reply comment''" and now = 1000 and ?st0.0 = "snd createMemoryAdapter",
      OF h1 h2 h3 h4 h5 h6 h7 h8 h9 h10]
  have o: "options (memorySystem testOptions) = testOptions" "maxDepth testOptions = 2"
    by (simp_all add: memorySystem_def testOptions_def)
  from t[of 2] have c1: "\<not> (\<exists>m. fst (CommentSystem_reply (memorySystem testOptions) (Some ''post_1'')
                    (Some ''comment_1'') (Some ''agent_2'') (VStr ''Reply comment'') 1000 exampleStore)
                = Inl (CommentError m ''MAX_DEPTH''))"
    by (simp add: o)
  from t[of 2] have c2: "\<exists>c st'. replyChain (memorySystem testOptions) ''post_1'' ''agent_1'' ''Depth'' 1000 2
                  (snd createMemoryAdapter) = (Inr c, st') \<and> depth c = Some 2"
    by (simp add: o)
  from t[of 3] have c3: "\<exists>m. fst (replyChain (memorySystem testOptions) ''post_1'' ''agent_1'' ''Depth'' 1000 3
                  (snd createMemoryAdapter)) = Inl (CommentError m ''MAX_DEPTH'')"
    by (simp add: o)
  from h1 h2 h3 h4 h5 p h7 h10 c1 c2 c3 show ?thesis by blast
qed

text \<open>
  Claim C10. When the parent record carries no depth, \<open>reply\<close> takes its depth to be 0:
  the call fails with \<open>MAX_DEPTH\<close> exactly when \<open>maxDepth\<close> is below 1, and otherwise a
  reply with valid content is handed to \<open>saveComment\<close> with depth 1, which the
  in-memory adapter stores unchanged.
\<close>

theorem reply_parent_without_depth:
  assumes "truthy postId'" "truthy parentId'" "truthy authorId'"
    and "getComment (adapter sys) = Some get" "get st parentId' = Some parent"
    and "postId parent = postId' \<or> post_id parent = postId'"
    and "depth parent = None"
  shows "((\<exists>m. CommentSystem_reply sys postId' parentId' authorId' content' now st
                = (Inl (CommentError m ''MAX_DEPTH''), st))
          \<longleftrightarrow> maxDepth (options sys) < 1)
     \<and> (1 \<le> maxDepth (options sys)
          \<and> CommentSystem_validateContent (options sys) content' = Inr v
          \<and> saveComment (adapter sys) = Some save
          \<longrightarrow> CommentSystem_reply sys postId' parentId' authorId' content' now st
                = (Inr (fst (save now st (replyDraft postId' parentId' authorId' v 1 now))),
                   snd (save now st (replyDraft postId' parentId' authorId' v 1 now))))
     \<and> depth (replyDraft postId' parentId' authorId' v 1 now) = Some 1
     \<and> depth (fst (mem_saveComment now st0 (replyDraft postId' parentId' authorId' v 1 now))) = Some 1"
proof -
  from assms(7) have pd: "parentDepth parent = 0" by (simp add: parentDepth_def)
  note r = reply_resolved[OF assms(1-6), of content' now]
  have a: "(\<exists>m. CommentSystem_reply sys postId' parentId' authorId' content' now st
                = (Inl (CommentError m ''MAX_DEPTH''), st))
          \<longleftrightarrow> maxDepth (options sys) < 1"
    unfolding r pd
    by (auto split: sum.splits option.splits dest!: validateContent_error)
  have b: "1 \<le> maxDepth (options sys)
          \<and> CommentSystem_validateContent (options sys) content' = Inr v
          \<and> saveComment (adapter sys) = Some save
          \<longrightarrow> CommentSystem_reply sys postId' parentId' authorId' content' now st
                = (Inr (fst (save now st (replyDraft postId' parentId' authorId' v 1 now))),
                   snd (save now st (replyDraft postId' parentId' authorId' v 1 now)))"
    unfolding r pd by simp
  have c: "depth (replyDraft postId' parentId' authorId' v 1 now) = Some 1"
    by (simp add: replyDraft_def)
  have d: "depth (fst (mem_saveComment now st0 (replyDraft postId' parentId' authorId' v 1 now))) = Some 1"
    using mem_saveComment_saved(5)[of now st0 "replyDraft postId' parentId' authorId' v 1 now"]
    by (cases "mem_saveComment now st0 (replyDraft postId' parentId' authorId' v 1 now)")
       (simp add: replyDraft_def)
  from a b c d show ?thesis by blast
qed

theorem reply_parent_without_depth_witness:
  "truthy (Some ''post_1'') \<and> truthy (Some ''legacy_1'') \<and> truthy (Some ''agent_2'')
   \<and> getComment (adapter (memorySystem DEFAULT_OPTIONS)) = Some mem_getComment
   \<and> mem_getComment legacyStore (Some ''legacy_1'') = Some (mkComment ''legacy_1'' None)
   \<and> postId (mkComment ''legacy_1'' None) = Some ''post_1''
   \<and> depth (mkComment ''legacy_1'' None) = None
   \<and> 1 \<le> maxDepth (options (memorySystem DEFAULT_OPTIONS))
   \<and> CommentSystem_validateContent (options (memorySystem DEFAULT_OPTIONS)) (VStr ''Reply'') = Inr ''Reply''
   \<and> saveComment (adapter (memorySystem DEFAULT_OPTIONS)) = Some mem_saveComment
   \<and> CommentSystem_reply (memorySystem DEFAULT_OPTIONS) (Some ''post_1'') (Some ''legacy_1'')
         (Some ''agent_2'') (VStr ''Reply'') 1000 legacyStore
       = (Inr (fst (mem_saveComment 1000 legacyStore
                     (replyDraft (Some ''post_1'') (Some ''legacy_1'') (Some ''agent_2'') ''Reply'' 1 1000))),
          snd (mem_saveComment 1000 legacyStore
                     (replyDraft (Some ''post_1'') (Some ''legacy_1'') (Some ''agent_2'') ''Reply'' 1 1000)))
   \<and> depth (fst (mem_saveComment 1000 legacyStore
                     (replyDraft (Some ''post_1'') (Some ''legacy_1'') (Some ''agent_2'') ''Reply'' 1 1000)))
       = Some 1"
proof -
  have h1: "truthy (Some ''post_1'')" and h2: "truthy (Some ''legacy_1'')"
    and h3: "truthy (Some ''agent_2'')"
    by (simp_all add: truthy_def)
  have h4: "getComment (adapter (memorySystem DEFAULT_OPTIONS)) = Some mem_getComment"
    by (simp add: memorySystem_def createMemoryAdapter_def)
  have h5: "mem_getComment legacyStore (Some ''legacy_1'') = Some (mkComment ''legacy_1'' None)"
    by (simp add: mem_getComment_def legacyStore_def)
  have p: "postId (mkComment ''legacy_1'' None) = Some ''post_1''"
    and h7: "depth (mkComment ''legacy_1'' None) = None"
    by (simp_all add: mkComment_def)
  then have h6: "postId (mkComment ''legacy_1'' None) = Some ''post_1''
      \<or> post_id (mkComment ''legacy_1'' None) = Some ''post_1''" by simp
  have g1: "1 \<le> maxDepth (options (memorySystem DEFAULT_OPTIONS))"
    by (simp add: memorySystem_def DEFAULT_OPTIONS_def)
  have g2: "CommentSystem_validateContent (options (memorySystem DEFAULT_OPTIONS)) (VStr ''Reply'') = Inr ''Reply''"
    by (simp add: CommentSystem_validateContent_def trim_def is_space_def memorySystem_def DEFAULT_OPTIONS_def)
  have g3: "saveComment (adapter (memorySystem DEFAULT_OPTIONS)) = Some mem_saveComment"
    by (simp add: memorySystem_def createMemoryAdapter_def)
  note t = reply_parent_without_depth[where sys = "memorySystem DEFAULT_OPTIONS"
      and get = mem_getComment and st = legacyStore and parent = "mkComment ''legacy_1'' None"
      and postId' = "Some ''post_1''" and parentId' = "Some ''legacy_1''"
      and authorId' = "Some ''agent_2''" and content' = "VStr ''Reply''" and now = 1000
      and v = "''Reply''" and save = mem_saveComment and ?st0.0 = legacyStore,
      OF h1 h2 h3 h4 h5 h6 h7]
  from t g1 g2 g3 have c1: "CommentSystem_reply (memorySystem DEFAULT_OPTIONS) (Some ''post_1'') (Some ''legacy_1'')
         (Some ''agent_2'') (VStr ''Reply'') 1000 legacyStore
       = (Inr (fst (mem_saveComment 1000 legacyStore
                     (replyDraft (Some ''post_1'') (Some ''legacy_1'') (Some ''agent_2'') ''Reply'' 1 1000))),
          snd (mem_saveComment 1000 legacyStore
                     (replyDraft (Some ''post_1'') (Some ''legacy_1'') (Some ''agent_2'') ''Reply'' 1 1000)))"
    by blast
  from t have c2: "depth (fst (mem_saveComment 1000 legacyStore
                     (replyDraft (Some ''post_1'') (Some ''legacy_1'') (Some ''agent_2'') ''Reply'' 1 1000)))
       = Some 1"
    by blast
  from h1 h2 h3 h4 h5 p h7 g1 g2 g3 c1 c2 show ?thesis by blast
qed

subsection \<open>Deletion\<close>






subsection \<open>Order of the checks in reply\<close>







subsection \<open>Error codes\<close>

lemma validateAdapter_ok:
  "CommentSystem_validateAdapter a = Inr u \<Longrightarrow>
     getComment a \<noteq> None \<and> getComments a \<noteq> None \<and> saveComment a \<noteq> None \<and> deleteComment a \<noteq> None"
  by (simp add: CommentSystem_validateAdapter_def has_method_def split: if_splits)

lemma validateAdapter_error:
  "CommentSystem_validateAdapter a = Inl e \<Longrightarrow> code e = None"
  by (auto simp: CommentSystem_validateAdapter_def split: if_splits)

lemma new_ok:
  "CommentSystem_new a d l = Inr sys \<Longrightarrow>
     getComment (adapter sys) \<noteq> None \<and> saveComment (adapter sys) \<noteq> None
     \<and> deleteComment (adapter sys) \<noteq> None"
  by (auto simp: CommentSystem_new_def split: sum.splits dest!: validateAdapter_ok)

lemma new_error: "CommentSystem_new a d l = Inl e \<Longrightarrow> code e = None"
  by (auto simp: CommentSystem_new_def split: sum.splits dest!: validateAdapter_error)

lemma validateContent_coded: "CommentSystem_validateContent opts v = Inl e \<Longrightarrow> coded e"
  by (auto dest!: validateContent_error simp: coded_def engine_codes_def)

lemma create_coded:
  "saveComment (adapter sys) \<noteq> None \<Longrightarrow>
     fst (CommentSystem_create sys p au ct now st) = Inl e \<Longrightarrow> coded e"
  by (auto simp: CommentSystem_create_def split_beta split: if_splits sum.splits dest: validateContent_coded)
     (auto simp: coded_def engine_codes_def)

lemma reply_coded:
  "getComment (adapter sys) \<noteq> None \<Longrightarrow> saveComment (adapter sys) \<noteq> None \<Longrightarrow>
     fst (CommentSystem_reply sys p q au ct now st) = Inl e \<Longrightarrow> coded e"
  by (auto simp: CommentSystem_reply_def Let_def split_beta
           split: if_splits sum.splits option.splits dest: validateContent_coded)
     (auto simp: coded_def engine_codes_def)

lemma getComment_coded:
  "getComment (adapter sys) \<noteq> None \<Longrightarrow>
     fst (CommentSystem_getComment sys i st) = Inl e \<Longrightarrow> coded e"
  by (auto simp: CommentSystem_getComment_def coded_def engine_codes_def split: option.splits)

lemma delete_coded:
  "getComment (adapter sys) \<noteq> None \<Longrightarrow> deleteComment (adapter sys) \<noteq> None \<Longrightarrow>
     fst (CommentSystem_delete sys i ag st) = Inl e \<Longrightarrow> coded e"
  by (auto simp: CommentSystem_delete_def Let_def coded_def engine_codes_def
           split: option.splits if_splits)

lemma updateScore_uncoded:
  "fst (CommentSystem_updateScore sys i delta st) = Inl e \<Longrightarrow> code e = None"
  by (auto simp: CommentSystem_updateScore_def has_method_def split_beta split: if_splits option.splits)

text \<open>
  Claim C9, as amended. Every failure that \<open>create\<close>, \<open>reply\<close>, \<open>getComment\<close> and
  \<open>delete\<close> of a constructed engine raise themselves is a \<open>CommentError\<close> with one of
  the engine's codes, distinct from its message. The failure of the constructor on an
  adapter that lacks a required method, and the failure of \<open>updateScore\<close> on an adapter
  without that method, are plain errors: they carry a message and no code.
\<close>

theorem engine_error_codes:
  assumes "CommentSystem_new a d l = Inr sys"
  shows "(\<forall>e. fst (CommentSystem_create sys p au ct now st) = Inl e \<longrightarrow> coded e)
     \<and> (\<forall>e. fst (CommentSystem_reply sys p q au ct now st) = Inl e \<longrightarrow> coded e)
     \<and> (\<forall>e. fst (CommentSystem_getComment sys i st) = Inl e \<longrightarrow> coded e)
     \<and> (\<forall>e. fst (CommentSystem_delete sys i ag st) = Inl e \<longrightarrow> coded e)
     \<and> (\<forall>e. fst (CommentSystem_updateScore sys i delta st) = Inl e \<longrightarrow> code e = None)
     \<and> (updateScore (adapter sys) = None
          \<longrightarrow> CommentSystem_updateScore sys i delta st
                = (Inl (Error ''Adapter does not support updateScore''), st))
     \<and> (\<forall>e. CommentSystem_new a' d' l' = Inl e \<longrightarrow> code e = None)"
proof -
  from new_ok[OF assms] have ok: "getComment (adapter sys) \<noteq> None"
    "saveComment (adapter sys) \<noteq> None" "deleteComment (adapter sys) \<noteq> None"
    by simp_all
  have u: "updateScore (adapter sys) = None
          \<longrightarrow> CommentSystem_updateScore sys i delta st
                = (Inl (Error ''Adapter does not support updateScore''), st)"
    by (simp add: CommentSystem_updateScore_def has_method_def)
  have c1: "\<forall>e. fst (CommentSystem_create sys p au ct now st) = Inl e \<longrightarrow> coded e"
    by (intro allI impI) (rule create_coded[OF ok(2)])
  have c2: "\<forall>e. fst (CommentSystem_reply sys p q au ct now st) = Inl e \<longrightarrow> coded e"
    by (intro allI impI) (rule reply_coded[OF ok(1,2)])
  have c3: "\<forall>e. fst (CommentSystem_getComment sys i st) = Inl e \<longrightarrow> coded e"
    by (intro allI impI) (rule getComment_coded[OF ok(1)])
  have c4: "\<forall>e. fst (CommentSystem_delete sys i ag st) = Inl e \<longrightarrow> coded e"
    by (intro allI impI) (rule delete_coded[OF ok(1,3)])
  have c5: "\<forall>e. fst (CommentSystem_updateScore sys i delta st) = Inl e \<longrightarrow> code e = None"
    by (intro allI impI) (rule updateScore_uncoded)
  have c6: "\<forall>e. CommentSystem_new a' d' l' = Inl e \<longrightarrow> code e = None"
    by (intro allI impI) (rule new_error)
  from c1 c2 c3 c4 c5 u c6 show ?thesis by (intro conjI)
qed

theorem engine_error_codes_witness:
  "CommentSystem_new (fst createMemoryAdapter) None None = Inr (memorySystem DEFAULT_OPTIONS)
   \<and> fst (CommentSystem_create (memorySystem DEFAULT_OPTIONS) (Some ''post_1'') (Some ''agent_1'')
            (VStr []) 1000 (snd createMemoryAdapter))
       = Inl (CommentError ''Content is required'' ''EMPTY_CONTENT'')
   \<and> coded (CommentError ''Content is required'' ''EMPTY_CONTENT'')"
proof -
  have h: "CommentSystem_new (fst createMemoryAdapter) None None = Inr (memorySystem DEFAULT_OPTIONS)"
    by (simp add: CommentSystem_new_def CommentSystem_validateAdapter_def has_method_def
          createMemoryAdapter_def memorySystem_def DEFAULT_OPTIONS_def)
  have e: "fst (CommentSystem_create (memorySystem DEFAULT_OPTIONS) (Some ''post_1'') (Some ''agent_1'')
            (VStr []) 1000 (snd createMemoryAdapter))
       = Inl (CommentError ''Content is required'' ''EMPTY_CONTENT'')"
    by (simp add: CommentSystem_create_def CommentSystem_validateContent_def truthy_def)
  note t = engine_error_codes[where a = "fst createMemoryAdapter" and d = None and l = None
      and sys = "memorySystem DEFAULT_OPTIONS" and p = "Some ''post_1''" and au = "Some ''agent_1''"
      and ct = "VStr []" and now = 1000 and st = "snd createMemoryAdapter", OF h]
  from t e have "coded (CommentError ''Content is required'' ''EMPTY_CONTENT'')"
    by blast
  with h e show ?thesis by blast
qed

text \<open>
  The claim as stated fails: neither the constructor's error nor the error of
  \<open>updateScore\<close> has a code.
\<close>

theorem engine_error_codes_counterexample:
  "CommentSystem_new bareAdapter None None
     = Inl (Error ''Adapter must implement getComment() method'')
   \<and> code (Error ''Adapter must implement getComment() method'') = None
   \<and> CommentSystem_updateScore \<lparr>adapter = scorelessAdapter, options = DEFAULT_OPTIONS\<rparr>
        (Some ''comment_1'') 1 exampleStore
     = (Inl (Error ''Adapter does not support updateScore''), exampleStore)
   \<and> code (Error ''Adapter does not support updateScore'') = None
   \<and> CommentSystem_new scorelessAdapter None None
     = Inr \<lparr>adapter = scorelessAdapter, options = DEFAULT_OPTIONS\<rparr>"
  by (simp add: CommentSystem_new_def CommentSystem_validateAdapter_def has_method_def
        CommentSystem_updateScore_def bareAdapter_def scorelessAdapter_def createMemoryAdapter_def
        DEFAULT_OPTIONS_def)

end
